theory Spec2Isabelle
  imports Complex_Main
begin

section \<open>Text helpers of the Python runtime\<close>

text \<open>
  Strings are lists of 8-bit characters. \<open>py_strip\<close> is \<^verbatim>\<open>str.strip()\<close> with no
  argument: it removes the characters for which \<^verbatim>\<open>str.isspace\<close> holds (in the 8-bit
  range: codes 9 to 13, 28 to 32, 133 and 160) from both ends.
\<close>

definition is_space :: "char \<Rightarrow> bool" where
  "is_space c = ((of_char c :: nat) \<in> {9, 10, 11, 12, 13, 28, 29, 30, 31, 32, 133, 160})"

definition py_strip :: "string \<Rightarrow> string" where
  "py_strip s = rev (dropWhile is_space (rev (dropWhile is_space s)))"

text \<open>\<^verbatim>\<open>s.replace(',', '')\<close>\<close>

definition remove_commas :: "string \<Rightarrow> string" where
  "remove_commas s = filter (\<lambda>c. c \<noteq> CHR '','') s"

definition newline :: char where
  "newline = CHR 0x0A"

text \<open>\<^verbatim>\<open>name.split('\n')[1] if '\n' in name else name\<close>: the text between the first and
  the second line break, or the whole name when it has no line break.\<close>

definition symbol_of :: "string \<Rightarrow> string" where
  "symbol_of nm =
     (if newline \<in> set nm
      then takeWhile (\<lambda>c. c \<noteq> newline) (tl (dropWhile (\<lambda>c. c \<noteq> newline) nm))
      else nm)"

subsection \<open>The builtin \<^verbatim>\<open>float(str)\<close>\<close>

text \<open>
  A Python float is an IEEE binary64 number: \<open>Fin m e\<close> is the number \<open>m * 2 ^ e\<close>, kept in
  the form where \<open>m\<close> is odd (or \<open>m = 0\<close> and \<open>e = 0\<close>); the other values are the negative
  zero, the two infinities and not-a-number.
\<close>

datatype pyfloat = Fin int int | NegZero | PosInf | NegInf | NaN

definition is_digit :: "char \<Rightarrow> bool" where
  "is_digit c = (c \<in> set ''0123456789'')"

definition digit_val :: "char \<Rightarrow> int" where
  "digit_val c = of_char c - 48"

definition digits_val :: "string \<Rightarrow> int" where
  "digits_val ds = foldl (\<lambda>a c. 10 * a + digit_val c) 0 ds"

definition ascii_lower :: "char \<Rightarrow> char" where
  "ascii_lower c =
     (let n = (of_char c :: nat) in if 65 \<le> n \<and> n \<le> 90 then char_of (n + 32) else c)"

text \<open>
  Underscores are checked and removed first, over the whole text: one may stand only
  between two digits. \<open>None\<close> is \<^verbatim>\<open>ValueError\<close>.
\<close>

fun strip_underscores :: "char \<Rightarrow> string \<Rightarrow> string option" where
  "strip_underscores prev [] = (if prev = CHR ''_'' then None else Some [])"
| "strip_underscores prev (c # cs) =
     (if c = CHR ''_'' then (if is_digit prev then strip_underscores c cs else None)
      else if prev = CHR ''_'' \<and> \<not> is_digit c then None
      else map_option ((#) c) (strip_underscores c cs))"

text \<open>
  White space is then dropped from both ends. Here it is narrower than for
  \<^verbatim>\<open>str.strip\<close>: the codes 9 to 13 and 32, and the two code points above 127 that are
  spaces (133 and 160); the separators 28 to 31 are not dropped, so a text that begins or
  ends with one of them is rejected.
\<close>

definition is_float_space :: "char \<Rightarrow> bool" where
  "is_float_space c = ((of_char c :: nat) \<in> {9, 10, 11, 12, 13, 32, 133, 160})"

definition float_strip :: "string \<Rightarrow> string" where
  "float_strip s = rev (dropWhile is_float_space (rev (dropWhile is_float_space s)))"

text \<open>
  Rounding the positive fraction \<open>n / d\<close> to the nearest binary64 number, ties to the even
  significand: \<open>binary_exponent\<close> is the integer part of the binary logarithm of \<open>n / d\<close>; the
  last place of the significand is 52 binary places below it, and never below
  \<open>2 ^ - 1074\<close> (the subnormal numbers); a result of \<open>2 ^ 1024\<close> or more is the infinity.
\<close>

function floor_log2 :: "int \<Rightarrow> int" where
  "floor_log2 n = (if n < 2 then 0 else 1 + floor_log2 (n div 2))"
  by pat_completeness auto
termination
  by (relation "measure nat") auto

declare floor_log2.simps [simp del]

definition at_least_pow2 :: "int \<Rightarrow> int \<Rightarrow> int \<Rightarrow> bool" where
  "at_least_pow2 n d k = (if 0 \<le> k then d * 2 ^ nat k \<le> n else d \<le> n * 2 ^ nat (- k))"

definition binary_exponent :: "int \<Rightarrow> int \<Rightarrow> int" where
  "binary_exponent n d =
     (let k = floor_log2 n - floor_log2 d
      in if at_least_pow2 n d k then k else k - 1)"

definition round_half_even :: "int \<Rightarrow> int \<Rightarrow> int" where
  "round_half_even n d =
     (let f = n div d; r = n mod d
      in if 2 * r < d then f else if d < 2 * r then f + 1 else if even f then f else f + 1)"

function reduce :: "int \<Rightarrow> int \<Rightarrow> int \<times> int" where
  "reduce m e = (if m = 0 then (0, 0) else if even m then reduce (m div 2) (e + 1) else (m, e))"
  by pat_completeness auto
termination
  by (relation "measure (\<lambda>(m, e). nat \<bar>m\<bar>)") auto

declare reduce.simps [simp del]

definition round_double :: "int \<Rightarrow> int \<Rightarrow> pyfloat" where
  "round_double n d =
     (if n = 0 then Fin 0 0
      else
        let e = max (binary_exponent n d) (- 1022) in
        if 1024 \<le> e then PosInf
        else
          let s = e - 52;
              m = (if s \<le> 0 then round_half_even (n * 2 ^ nat (- s)) d
                   else round_half_even n (d * 2 ^ nat s))
          in if e = 1023 \<and> 2 ^ 53 \<le> m then PosInf
             else (case reduce m s of (m', e') \<Rightarrow> Fin m' e'))"

text \<open>The binary64 number nearest to \<open>m * 10 ^ x\<close>, for a number \<open>m\<close> of decimal digits.\<close>

definition decimal_double :: "int \<Rightarrow> int \<Rightarrow> pyfloat" where
  "decimal_double m x =
     (if 0 \<le> x then round_double (m * 10 ^ nat x) 1 else round_double m (10 ^ nat (- x)))"

text \<open>
  The exponent part: nothing, or the letter e, an optional sign and at least one digit.
\<close>

definition parse_exponent :: "string \<Rightarrow> int option" where
  "parse_exponent s =
     (case s of
        [] \<Rightarrow> Some 0
      | c # t \<Rightarrow>
          if c = CHR ''e'' \<or> c = CHR ''E'' then
            (let neg = (t \<noteq> [] \<and> hd t = CHR ''-'');
                 ds = (if t \<noteq> [] \<and> (hd t = CHR ''-'' \<or> hd t = CHR ''+'') then tl t else t)
             in if ds \<noteq> [] \<and> list_all is_digit ds
                then Some (if neg then - digits_val ds else digits_val ds)
                else None)
          else None)"

text \<open>
  What follows the optional sign: \<^verbatim>\<open>inf\<close>, \<^verbatim>\<open>infinity\<close> or \<^verbatim>\<open>nan\<close> in any letter case,
  or digits with an optional point and fraction, at least one digit in all, and an
  optional exponent. The whole text has to be used up.
\<close>

definition parse_magnitude :: "string \<Rightarrow> pyfloat option" where
  "parse_magnitude s =
     (if map ascii_lower s = ''inf'' \<or> map ascii_lower s = ''infinity'' then Some PosInf
      else if map ascii_lower s = ''nan'' then Some NaN
      else
        let ip = takeWhile is_digit s;
            r1 = dropWhile is_digit s;
            fp = (case r1 of [] \<Rightarrow> [] | c # t \<Rightarrow> if c = CHR ''.'' then takeWhile is_digit t else []);
            r2 = (case r1 of [] \<Rightarrow> [] | c # t \<Rightarrow> if c = CHR ''.'' then dropWhile is_digit t else r1)
        in if ip = [] \<and> fp = [] then None
           else map_option (\<lambda>e. decimal_double (digits_val (ip @ fp)) (e - int (length fp)))
                  (parse_exponent r2))"

definition negate :: "pyfloat \<Rightarrow> pyfloat" where
  "negate v =
     (case v of
        Fin m e \<Rightarrow> if m = 0 then NegZero else Fin (- m) e
      | NegZero \<Rightarrow> Fin 0 0
      | PosInf \<Rightarrow> NegInf
      | NegInf \<Rightarrow> PosInf
      | NaN \<Rightarrow> NaN)"

definition py_float :: "string \<Rightarrow> pyfloat option" where
  "py_float s =
     (case strip_underscores (CHR 0x00) s of
        None \<Rightarrow> None
      | Some u \<Rightarrow>
          (case float_strip u of
             [] \<Rightarrow> None
           | c # t \<Rightarrow>
               if c = CHR ''-'' then map_option negate (parse_magnitude t)
               else if c = CHR ''+'' then parse_magnitude t
               else parse_magnitude (c # t)))"

section \<open>Records of the harvest\<close>

text \<open>
  The \<^verbatim>\<open>price\<close> entry of a stock dictionary holds either a string (the cleaned cell text,
  when it is empty) or a float.
\<close>

datatype pyval = PyStr string | PyFloat pyfloat

record stock =
  name :: string
  symbol :: string
  price :: pyval
  change_percent :: string
  volume :: string
  value_rupees :: string
  timestamp :: string

text \<open>
  Lines 158 and 164 to 169 of \<^verbatim>\<open>scrape_stock_data\<close>: the price text is stripped and its
  commas removed; a non-empty text goes through \<^verbatim>\<open>float\<close>, and a \<^verbatim>\<open>ValueError\<close> logs a
  warning and gives \<open>0.0\<close>. The second component is the text of the warning logged, if any.
\<close>

definition clean_price :: "string \<Rightarrow> pyval \<times> string option" where
  "clean_price cell_text =
     (let p = remove_commas (py_strip cell_text)
      in if p \<noteq> [] then
           (case py_float p of
              Some v \<Rightarrow> (PyFloat v, None)
            | None \<Rightarrow> (PyFloat (Fin 0 0), Some p))
         else (PyStr p, None))"

text \<open>
  A rendered table row as the driver shows it: \<open>RowRaises\<close> when scrolling it into view or
  listing its cells raises; otherwise its cells and the clock reading taken while it is
  processed. A cell is \<open>None\<close> when reading its text raises.
\<close>

type_synonym cell = "string option"

datatype row = RowRaises | Row "cell list" string

text \<open>
  The body of the loop over \<^verbatim>\<open>table_rows\<close> (lines 142 to 186). Every exception raised
  inside is caught and the row skipped; \<^verbatim>\<open>continue\<close> skips the row as well.
\<close>

definition process_row :: "row \<Rightarrow> stock list \<Rightarrow> stock list" where
  "process_row r all_stocks_data =
     (case r of
        RowRaises \<Rightarrow> all_stocks_data
      | Row cols clock \<Rightarrow>
          if 5 \<le> length cols then
            (case cols ! 0 of
               None \<Rightarrow> all_stocks_data
             | Some t0 \<Rightarrow>
                 let nm = py_strip t0 in
                 if nm = [] \<or> nm \<in> set (map name all_stocks_data) then all_stocks_data
                 else
                   (case (cols ! 1, cols ! 2, cols ! 3, cols ! 4) of
                      (Some t1, Some t2, Some t3, Some t4) \<Rightarrow>
                        all_stocks_data @
                          [\<lparr>name = nm, symbol = symbol_of nm, price = fst (clean_price t1),
                            change_percent = py_strip t2, volume = py_strip t3,
                            value_rupees = py_strip t4, timestamp = clock\<rparr>]
                    | _ \<Rightarrow> all_stocks_data))
          else all_stocks_data)"

fun process_rows :: "row list \<Rightarrow> stock list \<Rightarrow> stock list" where
  "process_rows [] all_stocks_data = all_stocks_data"
| "process_rows (r # rs) all_stocks_data = process_rows rs (process_row r all_stocks_data)"

section \<open>The harvest loop\<close>

text \<open>
  The local variables of \<^verbatim>\<open>scrape_stock_data\<close> that live across iterations
  (lines 105 to 110). \<open>scroll_attempts\<close> is the counter that the loop condition compares
  with \<open>max_scroll_attempts\<close>.
\<close>

record harvest =
  all_stocks_data :: "stock list"
  last_height :: int
  scroll_attempts :: nat
  no_new_data_count :: nat
  previous_stock_count :: nat

definition harvest_init :: harvest where
  "harvest_init =
     \<lparr>all_stocks_data = [], last_height = 0, scroll_attempts = 0,
      no_new_data_count = 0, previous_stock_count = 0\<rparr>"

definition max_scroll_attempts :: nat where
  "max_scroll_attempts = 50"

text \<open>
  What the browser driver answers during one iteration:
  \<^item> \<open>scrolls_ok\<close>: the three \<^verbatim>\<open>window.scrollBy\<close> scripts returned (none raised);
  \<^item> \<open>table_rows\<close>: the rows returned by \<^verbatim>\<open>wait.until\<close>, or \<open>None\<close> when it raised
    (a timeout or any other exception);
  \<^item> \<open>new_height\<close>: the scroll height read at line 201, or \<open>None\<close> when the script raised;
  \<^item> \<open>final_height\<close>: the height read at line 212 after the scroll to the very bottom, or
    \<open>None\<close> when either script raised;
  \<^item> \<open>screenshot\<close>: what \<^verbatim>\<open>save_screenshot\<close> returned (\<open>False\<close> when the image
    could not be written), or \<open>None\<close> when it raised.
\<close>

record observation =
  scrolls_ok :: bool
  table_rows :: "row list option"
  new_height :: "int option"
  final_height :: "int option"
  screenshot :: "bool option"

text \<open>The ways the \<^verbatim>\<open>while\<close> loop is left without an exception: the four
  \<^verbatim>\<open>break\<close> statements, in source order, and the loop condition turning false.\<close>

datatype loop_exit = WaitError | NoRowsFound | NoNewData | ReachedEnd | MaxAttempts

text \<open>The result of one run of the loop body: fall through to the next test of the loop
  condition, \<^verbatim>\<open>break\<close>, or an exception that leaves the loop for the outer handler.\<close>

datatype step = Next harvest | Break loop_exit harvest | Raise

text \<open>Lines 219 to 224: the periodic screenshot and the update of \<open>last_height\<close>.\<close>

definition finish_iteration :: "observation \<Rightarrow> int \<Rightarrow> harvest \<Rightarrow> step" where
  "finish_iteration ob nh h =
     (if length (all_stocks_data h) mod 50 = 0 then
        (case screenshot ob of
           None \<Rightarrow> Raise
         | Some saved \<Rightarrow> Next (h\<lparr>last_height := nh\<rparr>))
      else Next (h\<lparr>last_height := nh\<rparr>))"

text \<open>Lines 200 to 217: the height check with its probe of the very bottom.\<close>

definition check_height :: "observation \<Rightarrow> harvest \<Rightarrow> step" where
  "check_height ob h =
     (case new_height ob of
        None \<Rightarrow> Raise
      | Some nh \<Rightarrow>
          if nh = last_height h then
            (let h' = h\<lparr>scroll_attempts := scroll_attempts h + 1\<rparr> in
             if 3 \<le> scroll_attempts h' then
               (case final_height ob of
                  None \<Rightarrow> Raise
                | Some fh \<Rightarrow> if fh = nh then Break ReachedEnd h' else finish_iteration ob nh h')
             else finish_iteration ob nh h')
          else finish_iteration ob nh (h\<lparr>scroll_attempts := 0\<rparr>))"

text \<open>Lines 188 to 198: the check for new data, then the rest of the body.\<close>

definition check_new_data :: "observation \<Rightarrow> harvest \<Rightarrow> step" where
  "check_new_data ob h =
     (let current_stock_count = length (all_stocks_data h) in
      if current_stock_count = previous_stock_count h then
        (let h' = h\<lparr>no_new_data_count := no_new_data_count h + 1\<rparr> in
         if 5 \<le> no_new_data_count h' then Break NoNewData h'
         else check_height ob (h'\<lparr>previous_stock_count := current_stock_count\<rparr>))
      else check_height ob
             (h\<lparr>no_new_data_count := 0, previous_stock_count := current_stock_count\<rparr>))"

text \<open>The whole loop body (lines 116 to 229).\<close>

definition iteration :: "observation \<Rightarrow> harvest \<Rightarrow> step" where
  "iteration ob h =
     (if \<not> scrolls_ok ob then Raise
      else
        (case table_rows ob of
           None \<Rightarrow> Break WaitError h
         | Some rows \<Rightarrow>
             if rows = [] then Break NoRowsFound h
             else check_new_data ob
                    (h\<lparr>all_stocks_data := process_rows rows (all_stocks_data h)\<rparr>)))"

text \<open>
  How the loop ended: \<open>Stopped e k h\<close> when it was left by \<open>e\<close> after \<open>k\<close> iterations had
  been started, with the variables \<open>h\<close>; \<open>Raised k\<close> when iteration number \<open>k\<close> (counted
  from 1) raised.
\<close>

datatype loop_result = Stopped loop_exit nat harvest | Raised nat

text \<open>
  The \<^verbatim>\<open>while\<close> loop (line 115). The driver's answers are a feed indexed by the
  iteration number, from 0. The loop need not end, so it runs on fuel: one unit per
  iteration, and \<open>None\<close> when the fuel is used up with the loop condition still true.
\<close>

fun scrape_loop :: "nat \<Rightarrow> (nat \<Rightarrow> observation) \<Rightarrow> nat \<Rightarrow> harvest \<Rightarrow> loop_result option" where
  "scrape_loop 0 feed i h =
     (if scroll_attempts h < max_scroll_attempts then None
      else Some (Stopped MaxAttempts i h))"
| "scrape_loop (Suc fuel) feed i h =
     (if scroll_attempts h < max_scroll_attempts then
        (case iteration (feed i) h of
           Raise \<Rightarrow> Some (Raised (Suc i))
         | Break e h' \<Rightarrow> Some (Stopped e (Suc i) h')
         | Next h' \<Rightarrow> scrape_loop fuel feed (Suc i) h')
      else Some (Stopped MaxAttempts i h))"

text \<open>What \<^verbatim>\<open>scrape_stock_data\<close> returns: the list of stocks, or \<^verbatim>\<open>None\<close>.\<close>

datatype returned = ReturnsNone | Returns "stock list"

text \<open>Lines 231 to 236.\<close>

definition finalize :: "harvest \<Rightarrow> returned" where
  "finalize h = (if all_stocks_data h \<noteq> [] then Returns (all_stocks_data h) else ReturnsNone)"

text \<open>
  \<^verbatim>\<open>scrape_stock_data\<close> with a driver already set up: \<open>get_ok\<close> tells whether
  \<^verbatim>\<open>driver.get\<close> returned. Every exception inside the \<^verbatim>\<open>try\<close> block ends in the handler
  of lines 238 to 241, which returns \<^verbatim>\<open>None\<close>. The outer \<open>None\<close> is the fuel running out.
\<close>

definition scrape_stock_data :: "nat \<Rightarrow> bool \<Rightarrow> (nat \<Rightarrow> observation) \<Rightarrow> returned option" where
  "scrape_stock_data fuel get_ok feed =
     (if \<not> get_ok then Some ReturnsNone
      else
        (case scrape_loop fuel feed 0 harvest_init of
           None \<Rightarrow> None
         | Some (Raised k) \<Rightarrow> Some ReturnsNone
         | Some (Stopped e k h) \<Rightarrow> Some (finalize h)))"

text \<open>
  The loop variables at the moment the loop condition is tested for the iteration with
  index \<open>n\<close>, when the loop gets that far: \<open>None\<close> when an earlier iteration left the loop.
\<close>

fun state_at :: "(nat \<Rightarrow> observation) \<Rightarrow> nat \<Rightarrow> harvest option" where
  "state_at feed 0 = Some harvest_init"
| "state_at feed (Suc n) =
     (case state_at feed n of
        None \<Rightarrow> None
      | Some h \<Rightarrow>
          if scroll_attempts h < max_scroll_attempts then
            (case iteration (feed n) h of Next h' \<Rightarrow> Some h' | _ \<Rightarrow> None)
          else None)"

text \<open>The rows an iteration hands to the row loop: none when the wait raised.\<close>

definition rows_of :: "observation \<Rightarrow> row list" where
  "rows_of ob = (case table_rows ob of None \<Rightarrow> [] | Some rows \<Rightarrow> rows)"

text \<open>All the rows of the first \<open>k\<close> iterations of a feed, in the order they are processed.\<close>

definition rows_upto :: "(nat \<Rightarrow> observation) \<Rightarrow> nat \<Rightarrow> row list" where
  "rows_upto feed k = concat (map (\<lambda>i. rows_of (feed i)) [0..<k])"

section \<open>Saving to the CSV file\<close>

text \<open>
  The file is modelled at the level of CSV rows: its content is the list of the rows
  written, each a list of cell values; \<open>None\<close> is a file that does not exist. An existing
  file may refuse to be opened for reading or for writing.
\<close>

type_synonym csv_line = "pyval list"

record sink =
  content :: "csv_line list option"
  readable :: bool
  writable :: bool

definition headers :: "string list" where
  "headers = [''timestamp'', ''name'', ''symbol'', ''price'', ''change_percent'', ''volume'', ''value'']"

text \<open>\<^verbatim>\<open>DictWriter.writerow\<close>: the values of the dictionary in the order of \<open>headers\<close>.\<close>

definition csv_row :: "stock \<Rightarrow> csv_line" where
  "csv_row s =
     [PyStr (timestamp s), PyStr (name s), PyStr (symbol s), price s,
      PyStr (change_percent s), PyStr (volume s), PyStr (value_rupees s)]"

definition header_line :: csv_line where
  "header_line = map PyStr headers"

text \<open>
  \<^verbatim>\<open>save_to_csv\<close> (lines 243 to 273). Opening a missing file for reading raises
  \<^verbatim>\<open>FileNotFoundError\<close>, which is caught; any other failure to open ends in the outer
  handler, which returns \<^verbatim>\<open>False\<close> and leaves the file as it was.
\<close>

definition save_to_csv :: "stock list \<Rightarrow> sink \<Rightarrow> bool \<times> sink" where
  "save_to_csv stocks_data f =
     (case content f of
        None \<Rightarrow>
          if writable f
          then (True, f\<lparr>content := Some (header_line # map csv_row stocks_data)\<rparr>)
          else (False, f)
      | Some lines \<Rightarrow>
          if \<not> readable f then (False, f)
          else if writable f
          then (True, f\<lparr>content := Some (lines @ map csv_row stocks_data)\<rparr>)
          else (False, f))"

section \<open>Notions used to state the properties\<close>

text \<open>
  The name under which a row is offered to the list of stocks: the stripped text of its
  first cell, when the row has at least five cells, the texts of the first five can be
  read, and the stripped name is not empty. Every other row is skipped whatever the list
  holds.
\<close>

definition candidate :: "row \<Rightarrow> string option" where
  "candidate r =
     (case r of
        RowRaises \<Rightarrow> None
      | Row cols clock \<Rightarrow>
          if 5 \<le> length cols \<and> list_all (\<lambda>c. c \<noteq> None) (take 5 cols)
             \<and> py_strip (the (cols ! 0)) \<noteq> []
          then Some (py_strip (the (cols ! 0))) else None)"

definition candidates :: "row list \<Rightarrow> string list" where
  "candidates rows = concat (map (\<lambda>r. case candidate r of None \<Rightarrow> [] | Some nm \<Rightarrow> [nm]) rows)"

text \<open>The dictionary built from a row that is offered (lines 171 to 179).\<close>

definition stock_of_row :: "row \<Rightarrow> stock option" where
  "stock_of_row r =
     (case r of
        RowRaises \<Rightarrow> None
      | Row cols clock \<Rightarrow>
          (case candidate r of
             None \<Rightarrow> None
           | Some nm \<Rightarrow>
               Some \<lparr>name = nm, symbol = symbol_of nm,
                     price = fst (clean_price (the (cols ! 1))),
                     change_percent = py_strip (the (cols ! 2)),
                     volume = py_strip (the (cols ! 3)),
                     value_rupees = py_strip (the (cols ! 4)), timestamp = clock\<rparr>))"

text \<open>Names admitted one after the other, each only if it is not yet in the list.\<close>

fun admit :: "string list \<Rightarrow> string list \<Rightarrow> string list" where
  "admit seen [] = seen"
| "admit seen (x # xs) = admit (if x \<in> set seen then seen else seen @ [x]) xs"


section \<open>Example feeds\<close>

definition mk_row :: "string \<Rightarrow> row" where
  "mk_row nm = Row [Some nm, Some ''1'', Some ''2'', Some ''3'', Some ''4''] ''2024-01-01 09:00:00''"


text \<open>Rows A, B in the first iteration, A (with other cell texts) and C in the second; the
  wait of the third iteration raises.\<close>

definition abac_feed :: "nat \<Rightarrow> observation" where
  "abac_feed i =
     (if i = 0 then
        \<lparr>scrolls_ok = True,
         table_rows = Some [Row [Some ''A'', Some ''10'', Some ''+1%'', Some ''5'', Some ''50''] ''09:00:00'',
                            Row [Some ''B'', Some ''20'', Some ''+2%'', Some ''6'', Some ''60''] ''09:00:01''],
         new_height = Some 100, final_height = Some 100, screenshot = Some True\<rparr>
      else if i = 1 then
        \<lparr>scrolls_ok = True,
         table_rows = Some [Row [Some ''A'', Some ''11'', Some ''+9%'', Some ''7'', Some ''70''] ''09:01:00'',
                            Row [Some ''C'', Some ''30'', Some ''+3%'', Some ''8'', Some ''80''] ''09:01:01''],
         new_height = Some 200, final_height = Some 200, screenshot = Some True\<rparr>
      else
        \<lparr>scrolls_ok = True, table_rows = None,
         new_height = Some 200, final_height = Some 200, screenshot = Some True\<rparr>)"

definition abac_stocks :: "stock list" where
  "abac_stocks =
     [\<lparr>name = ''A'', symbol = ''A'', price = PyFloat (Fin 5 1), change_percent = ''+1%'',
       volume = ''5'', value_rupees = ''50'', timestamp = ''09:00:00''\<rparr>,
      \<lparr>name = ''B'', symbol = ''B'', price = PyFloat (Fin 5 2), change_percent = ''+2%'',
       volume = ''6'', value_rupees = ''60'', timestamp = ''09:00:01''\<rparr>,
      \<lparr>name = ''C'', symbol = ''C'', price = PyFloat (Fin 15 1), change_percent = ''+3%'',
       volume = ''8'', value_rupees = ''80'', timestamp = ''09:01:01''\<rparr>]"

definition abac_final :: harvest where
  "abac_final =
     \<lparr>all_stocks_data = abac_stocks, last_height = 200, scroll_attempts = 0,
      no_new_data_count = 0, previous_stock_count = 3\<rparr>"

text \<open>The number of stocks that iteration \<open>i\<close> of a feed adds to the list.\<close>

definition new_records :: "(nat \<Rightarrow> observation) \<Rightarrow> nat \<Rightarrow> nat" where
  "new_records feed i =
     length (process_rows (rows_upto feed (Suc i)) []) - length (process_rows (rows_upto feed i) [])"

text \<open>Row A at every iteration, on a page that is 100 units higher each time.\<close>

definition repeat_feed :: "nat \<Rightarrow> observation" where
  "repeat_feed i =
     \<lparr>scrolls_ok = True, table_rows = Some [mk_row ''A''],
      new_height = Some (100 * (int i + 1)), final_height = Some (100 * (int i + 1)),
      screenshot = Some True\<rparr>"

definition repeat_state :: harvest where
  "repeat_state =
     \<lparr>all_stocks_data =
        [\<lparr>name = ''A'', symbol = ''A'', price = PyFloat (Fin 1 0), change_percent = ''2'',
          volume = ''3'', value_rupees = ''4'', timestamp = ''2024-01-01 09:00:00''\<rparr>],
      last_height = 500, scroll_attempts = 0, no_new_data_count = 4, previous_stock_count = 1\<rparr>"

text \<open>A new row at every iteration on a page whose height stays at 700, while the
  height read after the scroll to the very bottom is 900.\<close>

definition probe_feed :: "nat \<Rightarrow> observation" where
  "probe_feed i =
     \<lparr>scrolls_ok = True, table_rows = Some [mk_row (replicate (Suc i) CHR ''A'')],
      new_height = Some 700, final_height = Some 900, screenshot = Some True\<rparr>"

definition probe_state :: harvest where
  "probe_state =
     \<lparr>all_stocks_data = [], last_height = 700, scroll_attempts = 2,
      no_new_data_count = 0, previous_stock_count = 0\<rparr>"

definition probe_next :: harvest where
  "probe_next =
     \<lparr>all_stocks_data =
        [\<lparr>name = ''AAAA'', symbol = ''AAAA'', price = PyFloat (Fin 1 0), change_percent = ''2'',
          volume = ''3'', value_rupees = ''4'', timestamp = ''2024-01-01 09:00:00''\<rparr>],
      last_height = 700, scroll_attempts = 3, no_new_data_count = 0, previous_stock_count = 1\<rparr>"

text \<open>Row A, then a wait that raises, then row B.\<close>

definition timeout_feed :: "nat \<Rightarrow> observation" where
  "timeout_feed i =
     \<lparr>scrolls_ok = True,
      table_rows = (if i = 0 then Some [mk_row ''A''] else if i = 1 then None else Some [mk_row ''B'']),
      new_height = Some (100 * (int i + 1)), final_height = Some (100 * (int i + 1)),
      screenshot = Some True\<rparr>"

definition timeout_state :: harvest where
  "timeout_state =
     \<lparr>all_stocks_data =
        [\<lparr>name = ''A'', symbol = ''A'', price = PyFloat (Fin 1 0), change_percent = ''2'',
          volume = ''3'', value_rupees = ''4'', timestamp = ''2024-01-01 09:00:00''\<rparr>],
      last_height = 100, scroll_attempts = 0, no_new_data_count = 0, previous_stock_count = 1\<rparr>"

text \<open>A new row at every iteration; the scrolls of the second iteration raise.\<close>

definition scroll_fail_feed :: "nat \<Rightarrow> observation" where
  "scroll_fail_feed i =
     \<lparr>scrolls_ok = (i \<noteq> 1), table_rows = Some [mk_row (replicate (Suc i) CHR ''A'')],
      new_height = Some (100 * (int i + 1)), final_height = Some (100 * (int i + 1)),
      screenshot = Some True\<rparr>"

text \<open>Fifty rows with fifty names in the first iteration, with a given outcome of the
  screenshot; the wait of the second iteration raises.\<close>

definition letter :: "nat \<Rightarrow> string" where
  "letter j = [char_of (65 + j)]"

definition snapshot_feed :: "bool option \<Rightarrow> nat \<Rightarrow> observation" where
  "snapshot_feed shot i =
     \<lparr>scrolls_ok = True,
      table_rows = (if i = 0 then Some (map (\<lambda>j. mk_row (letter j)) [0..<50]) else None),
      new_height = Some 100, final_height = Some 100, screenshot = shot\<rparr>"

definition fifty_stocks :: "stock list" where
  "fifty_stocks =
     map (\<lambda>j. \<lparr>name = letter j, symbol = letter j, price = PyFloat (Fin 1 0), change_percent = ''2'',
               volume = ''3'', value_rupees = ''4'', timestamp = ''2024-01-01 09:00:00''\<rparr>) [0..<50]"

definition fifty_state :: harvest where
  "fifty_state =
     \<lparr>all_stocks_data = fifty_stocks, last_height = 100, scroll_attempts = 0,
      no_new_data_count = 0, previous_stock_count = 50\<rparr>"

text \<open>A row named X with a given price text, and the stock it yields with a given price.\<close>

definition price_row :: "string \<Rightarrow> row" where
  "price_row p = Row [Some ''X'', Some p, Some ''+1%'', Some ''5'', Some ''50''] ''09:00:00''"

definition priced_stock :: "pyval \<Rightarrow> stock" where
  "priced_stock p =
     \<lparr>name = ''X'', symbol = ''X'', price = p, change_percent = ''+1%'',
      volume = ''5'', value_rupees = ''50'', timestamp = ''09:00:00''\<rparr>"

text \<open>A file that does not exist yet, and one that exists with nothing in it.\<close>

definition absent_sink :: sink where
  "absent_sink = \<lparr>content = None, readable = True, writable = True\<rparr>"

definition empty_sink :: sink where
  "empty_sink = \<lparr>content = Some [], readable = True, writable = True\<rparr>"



text \<open>Row A at every iteration on a page whose height is always 100, also after the
  scroll to the very bottom; and the variables with which the loop ends on it.\<close>

definition flat_feed :: "nat \<Rightarrow> observation" where
  "flat_feed i =
     \<lparr>scrolls_ok = True, table_rows = Some [mk_row ''A''],
      new_height = Some 100, final_height = Some 100, screenshot = Some True\<rparr>"

definition flat_final :: harvest where
  "flat_final =
     \<lparr>all_stocks_data =
        [\<lparr>name = ''A'', symbol = ''A'', price = PyFloat (Fin 1 0), change_percent = ''2'',
          volume = ''3'', value_rupees = ''4'', timestamp = ''2024-01-01 09:00:00''\<rparr>],
      last_height = 100, scroll_attempts = 3, no_new_data_count = 3, previous_stock_count = 1\<rparr>"

text \<open>The variables after the first iteration on \<open>repeat_feed\<close>.\<close>

definition repeat_start :: harvest where
  "repeat_start =
     \<lparr>all_stocks_data =
        [\<lparr>name = ''A'', symbol = ''A'', price = PyFloat (Fin 1 0), change_percent = ''2'',
          volume = ''3'', value_rupees = ''4'', timestamp = ''2024-01-01 09:00:00''\<rparr>],
      last_height = 100, scroll_attempts = 0, no_new_data_count = 0, previous_stock_count = 1\<rparr>"

section \<open>Rows, names and the list of stocks\<close>

lemma take5: "5 \<le> length cols \<Longrightarrow> take 5 cols = [cols ! 0, cols ! 1, cols ! 2, cols ! 3, cols ! 4]"
  by (auto simp: list_eq_iff_nth_eq nth_Cons' numeral_eq_Suc less_Suc_eq)

lemma process_row_names:
  "map name (process_row r acc) =
     (case candidate r of
        None \<Rightarrow> map name acc
      | Some nm \<Rightarrow> if nm \<in> set (map name acc) then map name acc else map name acc @ [nm])"
  by (cases r) (auto simp: process_row_def candidate_def take5 Let_def split: option.splits)

lemma process_rows_names: "map name (process_rows rows acc) = admit (map name acc) (candidates rows)"
  by (induction rows arbitrary: acc) (auto simp: process_row_names candidates_def split: option.splits)

lemma remdups_skip: "x \<in> set B \<Longrightarrow> remdups (A @ x # B) = remdups (A @ B)"
  by (induction A) auto

lemma admit_firsts: "distinct seen \<Longrightarrow> admit seen xs = rev (remdups (rev (seen @ xs)))"
proof (induction xs arbitrary: seen)
  case Nil
  then show ?case by (simp add: distinct_remdups_id)
next
  case (Cons x xs)
  show ?case
  proof (cases "x \<in> set seen")
    case True
    then have "remdups (rev xs @ x # rev seen) = remdups (rev xs @ rev seen)"
      by (intro remdups_skip) simp
    with True Cons show ?thesis by simp
  next
    case False
    with Cons.prems have "distinct (seen @ [x])" by simp
    from Cons.IH [OF this] False show ?thesis by simp
  qed
qed

lemma process_rows_firsts:
  "map name (process_rows rows []) = rev (remdups (rev (candidates rows)))"
  using admit_firsts [of "[]" "candidates rows"] by (simp add: process_rows_names)

lemma process_rows_append:
  "process_rows (rs @ rs') acc = process_rows rs' (process_rows rs acc)"
  by (induction rs arbitrary: acc) auto

lemma process_row_stock:
  "process_row r acc =
     (case stock_of_row r of
        None \<Rightarrow> acc
      | Some s \<Rightarrow> if name s \<in> set (map name acc) then acc else acc @ [s])"
  by (cases r)
    (auto simp: process_row_def stock_of_row_def candidate_def take5 Let_def split: option.splits)

lemma stock_of_row_name: "stock_of_row r = Some s \<Longrightarrow> candidate r = Some (name s)"
  by (cases r) (auto simp: stock_of_row_def split: option.splits)

lemma process_rows_snoc: "process_rows (rs @ [r]) acc = process_row r (process_rows rs acc)"
  by (simp add: process_rows_append)

lemma candidates_snoc:
  "candidates (rs @ [r]) = candidates rs @ (case candidate r of None \<Rightarrow> [] | Some nm \<Rightarrow> [nm])"
  by (simp add: candidates_def)

lemma names_are_candidates: "set (map name (process_rows rows [])) = set (candidates rows)"
  by (simp add: process_rows_firsts)

lemma find_candidate_None:
  "nm \<notin> set (candidates rows) \<Longrightarrow> find (\<lambda>r. candidate r = Some nm) rows = None"
  by (induction rows) (auto simp: candidates_def split: option.splits)

lemma find_append_cases:
  "find P (xs @ ys) = (case find P xs of None \<Rightarrow> find P ys | Some x \<Rightarrow> Some x)"
  by (induction xs) auto

lemma process_rows_first_row:
  "s \<in> set (process_rows rows []) \<Longrightarrow>
     \<exists>r. find (\<lambda>r. candidate r = Some (name s)) rows = Some r \<and> stock_of_row r = Some s"
proof (induction rows arbitrary: s rule: rev_induct)
  case Nil
  then show ?case by simp
next
  case (snoc r rows)
  show ?case
  proof (cases "s \<in> set (process_rows rows [])")
    case True
    from snoc.IH [OF True] show ?thesis by (auto simp: find_append_cases)
  next
    case False
    with snoc.prems obtain t where t: "stock_of_row r = Some t"
      and new: "name t \<notin> set (map name (process_rows rows []))" and st: "s = t"
      by (auto simp: process_rows_snoc process_row_stock split: option.splits if_splits)
    from new [unfolded names_are_candidates]
    have "find (\<lambda>r. candidate r = Some (name t)) rows = None"
      by (rule find_candidate_None)
    with t st stock_of_row_name [OF t] show ?thesis by (simp add: find_append_cases)
  qed
qed

section \<open>Invariants of the loop\<close>

lemma iteration_data:
  "iteration ob h = Next h' \<Longrightarrow>
     all_stocks_data h' = process_rows (rows_of ob) (all_stocks_data h) \<and>
     previous_stock_count h' = length (all_stocks_data h')"
  by (auto simp: iteration_def check_new_data_def check_height_def finish_iteration_def rows_of_def Let_def
      split: if_splits option.splits)

lemma iteration_break_data:
  "iteration ob h = Break e h' \<Longrightarrow>
     all_stocks_data h' = process_rows (rows_of ob) (all_stocks_data h)"
  by (auto simp: iteration_def check_new_data_def check_height_def finish_iteration_def rows_of_def Let_def
      split: if_splits option.splits)

lemma rows_upto_Suc: "rows_upto feed (Suc k) = rows_upto feed k @ rows_of (feed k)"
  by (simp add: rows_upto_def)

lemma state_at_data:
  "state_at feed n = Some h \<Longrightarrow>
     all_stocks_data h = process_rows (rows_upto feed n) [] \<and>
     previous_stock_count h = length (all_stocks_data h)"
proof (induction n arbitrary: h)
  case 0
  then show ?case by (auto simp: harvest_init_def rows_upto_def)
next
  case (Suc n)
  then obtain g where g: "state_at feed n = Some g" and it: "iteration (feed n) g = Next h"
    by (auto split: option.splits if_splits step.splits)
  from Suc.IH [OF g] iteration_data [OF it] show ?case
    by (simp add: rows_upto_Suc process_rows_append)
qed

lemma scrape_loop_resume:
  "state_at feed n = Some h \<Longrightarrow>
     scrape_loop (n + fuel) feed 0 harvest_init = scrape_loop fuel feed n h"
proof (induction n arbitrary: h fuel)
  case 0
  then show ?case by simp
next
  case (Suc n)
  then obtain g where g: "state_at feed n = Some g" and c: "scroll_attempts g < max_scroll_attempts"
    and it: "iteration (feed n) g = Next h"
    by (auto split: option.splits if_splits step.splits)
  from Suc.IH [OF g, of "Suc fuel"] c it show ?case by simp
qed

lemma scrape_loop_data:
  "scrape_loop fuel feed i h0 = Some (Stopped e k h) \<Longrightarrow>
     i \<le> k \<and>
     all_stocks_data h =
       process_rows (concat (map (\<lambda>j. rows_of (feed j)) [i..<k])) (all_stocks_data h0)"
proof (induction fuel arbitrary: i h0)
  case 0
  then show ?case by (auto split: if_splits)
next
  case (Suc fuel)
  show ?case
  proof (cases "scroll_attempts h0 < max_scroll_attempts")
    case False
    with Suc.prems show ?thesis by auto
  next
    case True
    show ?thesis
    proof (cases "iteration (feed i) h0")
      case (Next h1)
      with True Suc.prems have run: "scrape_loop fuel feed (Suc i) h1 = Some (Stopped e k h)"
        by simp
      from Suc.IH [OF run] have le: "Suc i \<le> k"
        and dat: "all_stocks_data h =
          process_rows (concat (map (\<lambda>j. rows_of (feed j)) [Suc i..<k])) (all_stocks_data h1)"
        by simp_all
      from le have "[i..<k] = i # [Suc i..<k]" by (simp add: upt_conv_Cons)
      with le dat iteration_data [OF Next] show ?thesis
        by (simp add: process_rows_append)
    next
      case (Break e1 h1)
      with True Suc.prems have "k = Suc i" and "h = h1" by simp_all
      with iteration_break_data [OF Break] show ?thesis by simp
    next
      case Raise
      with True Suc.prems show ?thesis by simp
    qed
  qed
qed

















lemma abac_run: "scrape_loop 5 abac_feed 0 harvest_init = Some (Stopped WaitError 3 abac_final)"
  by code_simp

section \<open>The bound of 50 (C1)\<close>




section \<open>One record per name (C4)\<close>

text \<open>
  C4: when the loop stops after \<open>k\<close> iterations, the names of the accumulated stocks are
  the names offered by the rows of those iterations with every repetition after the first
  removed, in the order of first occurrence; so the names are distinct and their number is
  the number of distinct names offered. Each stock kept is the dictionary built from the
  first row offered under its name: a later row with the same name changes nothing. The
  accumulated list is what \<^verbatim>\<open>scrape_stock_data\<close> returns (\<^verbatim>\<open>None\<close> when it is empty).
\<close>

theorem harvest_keeps_first_of_each_name:
  assumes "scrape_loop fuel feed 0 harvest_init = Some (Stopped e k h)"
  shows "map name (all_stocks_data h) = rev (remdups (rev (candidates (rows_upto feed k)))) \<and>
         distinct (map name (all_stocks_data h)) \<and>
         length (all_stocks_data h) = card (set (candidates (rows_upto feed k))) \<and>
         (\<forall>s \<in> set (all_stocks_data h).
            \<exists>r. find (\<lambda>r. candidate r = Some (name s)) (rows_upto feed k) = Some r \<and>
                stock_of_row r = Some s) \<and>
         scrape_stock_data fuel True feed = Some (finalize h)"
proof -
  from scrape_loop_data [OF assms]
  have dat: "all_stocks_data h = process_rows (rows_upto feed k) []"
    by (simp add: rows_upto_def harvest_init_def)
  have nm: "map name (all_stocks_data h) = rev (remdups (rev (candidates (rows_upto feed k))))"
    unfolding dat by (rule process_rows_firsts)
  have d: "distinct (map name (all_stocks_data h))"
    unfolding nm by simp
  have "length (all_stocks_data h) = length (map name (all_stocks_data h))"
    by simp
  also have "\<dots> = card (set (candidates (rows_upto feed k)))"
    unfolding nm by (simp add: length_remdups_card_conv)
  finally have len: "length (all_stocks_data h) = card (set (candidates (rows_upto feed k)))" .
  have fst: "\<forall>s \<in> set (all_stocks_data h).
            \<exists>r. find (\<lambda>r. candidate r = Some (name s)) (rows_upto feed k) = Some r \<and>
                stock_of_row r = Some s"
    unfolding dat using process_rows_first_row by blast
  have ret: "scrape_stock_data fuel True feed = Some (finalize h)"
    using assms by (simp add: scrape_stock_data_def)
  from nm d len fst ret show ?thesis by blast
qed

theorem harvest_keeps_first_of_each_name_witness:
  "scrape_loop 5 abac_feed 0 harvest_init = Some (Stopped WaitError 3 abac_final) \<and>
   candidates (rows_upto abac_feed 3) = [''A'', ''B'', ''A'', ''C''] \<and>
   map name (all_stocks_data abac_final) = [''A'', ''B'', ''C''] \<and>
   map name (all_stocks_data abac_final) = rev (remdups (rev (candidates (rows_upto abac_feed 3)))) \<and>
   distinct (map name (all_stocks_data abac_final)) \<and>
   length (all_stocks_data abac_final) = card (set (candidates (rows_upto abac_feed 3))) \<and>
   scrape_stock_data 5 True abac_feed = Some (Returns abac_stocks)"
proof -
  have c: "candidates (rows_upto abac_feed 3) = [''A'', ''B'', ''A'', ''C'']"
    by code_simp
  have n: "map name (all_stocks_data abac_final) = [''A'', ''B'', ''C'']"
    by (simp add: abac_final_def abac_stocks_def)
  have f: "finalize abac_final = Returns abac_stocks"
    by (simp add: finalize_def abac_final_def abac_stocks_def)
  from harvest_keeps_first_of_each_name [OF abac_run] abac_run c n f
  show ?thesis by simp
qed

section \<open>Five iterations without new data (C2)\<close>

lemma process_row_length: "length acc \<le> length (process_row r acc)"
  by (simp add: process_row_stock split: option.splits)

lemma process_rows_length: "length acc \<le> length (process_rows rows acc)"
proof (induction rows arbitrary: acc)
  case Nil
  then show ?case by simp
next
  case (Cons r rows)
  from process_row_length [of acc r] Cons [of "process_row r acc"] show ?case by simp
qed

lemma process_row_prefix: "\<exists>ys. process_row r acc = acc @ ys"
  by (simp add: process_row_stock split: option.splits)

lemma process_rows_prefix: "\<exists>ys. process_rows rows acc = acc @ ys"
proof (induction rows arbitrary: acc)
  case Nil
  then show ?case by simp
next
  case (Cons r rows)
  from process_row_prefix [of r acc] obtain ys where "process_row r acc = acc @ ys" by blast
  moreover from Cons [of "acc @ ys"] obtain zs where "process_rows rows (acc @ ys) = (acc @ ys) @ zs"
    by blast
  ultimately show ?case by simp
qed

lemma process_rows_same_length:
  "length (process_rows rows acc) = length acc \<Longrightarrow> process_rows rows acc = acc"
  using process_rows_prefix [of rows acc] by auto

lemma new_records_zero:
  assumes "state_at feed i = Some h" and "new_records feed i = 0"
  shows "process_rows (rows_of (feed i)) (all_stocks_data h) = all_stocks_data h"
proof -
  from state_at_data [OF assms(1)]
  have d: "all_stocks_data h = process_rows (rows_upto feed i) []" by simp
  have "process_rows (rows_upto feed (Suc i)) [] = process_rows (rows_of (feed i)) (all_stocks_data h)"
    by (simp add: rows_upto_Suc process_rows_append d)
  with assms(2) process_rows_length [of "all_stocks_data h" "rows_of (feed i)"] d
  have "length (process_rows (rows_of (feed i)) (all_stocks_data h)) = length (all_stocks_data h)"
    by (simp add: new_records_def)
  then show ?thesis by (rule process_rows_same_length)
qed

lemma iteration_counts_no_new:
  assumes "iteration ob h = Next h'"
    and "process_rows (rows_of ob) (all_stocks_data h) = all_stocks_data h"
    and "previous_stock_count h = length (all_stocks_data h)"
  shows "no_new_data_count h' = Suc (no_new_data_count h)"
  using assms
  by (auto simp: iteration_def check_new_data_def check_height_def finish_iteration_def rows_of_def
      Let_def split: if_splits option.splits)

lemma no_new_streak:
  "state_at feed (n + j) = Some h \<Longrightarrow> (\<forall>m<j. new_records feed (n + m) = 0) \<Longrightarrow>
     j \<le> no_new_data_count h"
proof (induction j arbitrary: h)
  case 0
  then show ?case by simp
next
  case (Suc j)
  from Suc.prems(1) obtain g where g: "state_at feed (n + j) = Some g"
    and it: "iteration (feed (n + j)) g = Next h"
    by (auto split: option.splits if_splits step.splits)
  from Suc.prems(2) have z: "new_records feed (n + j) = 0" and "\<forall>m<j. new_records feed (n + m) = 0"
    by simp_all
  with Suc.IH [OF g] have "j \<le> no_new_data_count g" by simp
  moreover from iteration_counts_no_new [OF it new_records_zero [OF g z]] state_at_data [OF g]
  have "no_new_data_count h = Suc (no_new_data_count g)" by simp
  ultimately show ?case by simp
qed

lemma fifth_iteration_breaks:
  assumes "scrolls_ok ob" and "table_rows ob = Some rows" and "rows \<noteq> []"
    and "process_rows rows (all_stocks_data h) = all_stocks_data h"
    and "previous_stock_count h = length (all_stocks_data h)"
    and "4 \<le> no_new_data_count h"
  shows "iteration ob h = Break NoNewData (h\<lparr>no_new_data_count := Suc (no_new_data_count h)\<rparr>)"
  using assms by (simp add: iteration_def check_new_data_def Let_def)

lemma repeat_start_reach: "state_at repeat_feed 1 = Some repeat_start"
  by code_simp

lemma quiet_step:
  assumes st: "state_at feed i = Some h" and c: "scroll_attempts h < max_scroll_attempts"
    and s: "scrolls_ok (feed i)" and r: "table_rows (feed i) = Some rows" "rows \<noteq> []"
    and z: "new_records feed i = 0" and k: "no_new_data_count h < 4"
    and nh: "new_height (feed i) = Some v" "v \<noteq> last_height h"
    and sh: "screenshot (feed i) \<noteq> None"
  shows "state_at feed (Suc i) =
           Some (h\<lparr>last_height := v, scroll_attempts := 0,
                   no_new_data_count := Suc (no_new_data_count h)\<rparr>)"
proof -
  from new_records_zero [OF st z] r
  have same: "process_rows rows (all_stocks_data h) = all_stocks_data h"
    by (simp add: rows_of_def)
  from state_at_data [OF st] have p: "previous_stock_count h = length (all_stocks_data h)"
    by simp
  have "iteration (feed i) h =
          Next (h\<lparr>last_height := v, scroll_attempts := 0,
                  no_new_data_count := Suc (no_new_data_count h)\<rparr>)"
    using s r same p k nh sh
    by (auto simp: iteration_def check_new_data_def check_height_def finish_iteration_def Let_def
        intro!: harvest.equality)
  with st c show ?thesis by simp
qed


lemma four_quiet_steps:
  assumes st: "state_at feed n = Some h" and z0: "no_new_data_count h = 0"
    and it: "\<forall>m<4. scrolls_ok (feed (n + m)) \<and> table_rows (feed (n + m)) \<noteq> None \<and>
               rows_of (feed (n + m)) \<noteq> [] \<and> new_records feed (n + m) = 0 \<and>
               screenshot (feed (n + m)) \<noteq> None"
    and v: "new_height (feed n) = Some v0" "new_height (feed (n + 1)) = Some v1"
           "new_height (feed (n + 2)) = Some v2" "new_height (feed (n + 3)) = Some v3"
    and d: "v0 \<noteq> last_height h" "v1 \<noteq> v0" "v2 \<noteq> v1" "v3 \<noteq> v2"
    and c: "scroll_attempts h < max_scroll_attempts"
  shows "state_at feed (n + 4) =
           Some (h\<lparr>last_height := v3, scroll_attempts := 0, no_new_data_count := 4\<rparr>)"
proof -
  have c0: "(0::nat) < max_scroll_attempts" by (simp add: max_scroll_attempts_def)
  have q: "\<exists>rows. scrolls_ok (feed (n + m)) \<and> table_rows (feed (n + m)) = Some rows \<and> rows \<noteq> [] \<and>
             new_records feed (n + m) = 0 \<and> screenshot (feed (n + m)) \<noteq> None" if "m < 4" for m
    using it that by (auto simp: rows_of_def split: option.splits)
  from q [of 0] obtain r0 where a0: "scrolls_ok (feed n)" "table_rows (feed n) = Some r0" "r0 \<noteq> []"
    "new_records feed n = 0" "screenshot (feed n) \<noteq> None" by auto
  from q [of 1] obtain r1 where a1: "scrolls_ok (feed (n + 1))" "table_rows (feed (n + 1)) = Some r1"
    "r1 \<noteq> []" "new_records feed (n + 1) = 0" "screenshot (feed (n + 1)) \<noteq> None" by auto
  from q [of 2] obtain r2 where a2: "scrolls_ok (feed (n + 2))" "table_rows (feed (n + 2)) = Some r2"
    "r2 \<noteq> []" "new_records feed (n + 2) = 0" "screenshot (feed (n + 2)) \<noteq> None" by auto
  from q [of 3] obtain r3 where a3: "scrolls_ok (feed (n + 3))" "table_rows (feed (n + 3)) = Some r3"
    "r3 \<noteq> []" "new_records feed (n + 3) = 0" "screenshot (feed (n + 3)) \<noteq> None" by auto
  have s1: "state_at feed (n + 1) =
      Some (h\<lparr>last_height := v0, scroll_attempts := 0, no_new_data_count := 1\<rparr>)"
    using quiet_step [OF st c a0(1-4) _ v(1) d(1) a0(5)] z0 by simp
  have s2: "state_at feed (n + 2) =
      Some (h\<lparr>last_height := v1, scroll_attempts := 0, no_new_data_count := 2\<rparr>)"
    using quiet_step [OF s1 _ a1(1-4) _ v(2) _ a1(5)] d(2) c0 by simp
  have s3: "state_at feed (n + 3) =
      Some (h\<lparr>last_height := v2, scroll_attempts := 0, no_new_data_count := 3\<rparr>)"
    using quiet_step [OF s2 _ a2(1-4) _ v(3) _ a2(5)] d(3) c0 by (simp add: numeral_3_eq_3 numeral_2_eq_2)
  show ?thesis
    using quiet_step [OF s3 _ a3(1-4) _ v(4) _ a3(5)] d(4) c0
    by (simp add: numeral_3_eq_3 eval_nat_numeral)
qed

lemma iteration_no_new_cases:
  "iteration ob g = Next h \<Longrightarrow>
     (no_new_data_count h = Suc (no_new_data_count g) \<and> no_new_data_count g < 4 \<and>
      length (process_rows (rows_of ob) (all_stocks_data g)) = previous_stock_count g) \<or>
     no_new_data_count h = 0"
  by (auto simp: iteration_def check_new_data_def check_height_def finish_iteration_def rows_of_def
      Let_def split: if_splits option.splits)

lemma length_gives_no_new_records:
  assumes "state_at feed n = Some g"
    and "length (process_rows (rows_of (feed n)) (all_stocks_data g)) = previous_stock_count g"
  shows "new_records feed n = 0"
proof -
  from state_at_data [OF assms(1)]
  have d: "all_stocks_data g = process_rows (rows_upto feed n) []"
    and p: "previous_stock_count g = length (all_stocks_data g)" by simp_all
  have "process_rows (rows_upto feed (Suc n)) [] = process_rows (rows_of (feed n)) (all_stocks_data g)"
    by (simp add: rows_upto_Suc process_rows_append d)
  with assms(2) p d show ?thesis by (simp add: new_records_def)
qed

lemma no_new_count_meaning:
  "state_at feed n = Some h \<Longrightarrow>
     no_new_data_count h < 5 \<and> no_new_data_count h \<le> n \<and>
     (\<forall>m<no_new_data_count h. new_records feed (n - Suc m) = 0)"
proof (induction n arbitrary: h)
  case 0
  then show ?case by (auto simp: harvest_init_def)
next
  case (Suc n)
  then obtain g where g: "state_at feed n = Some g" and it: "iteration (feed n) g = Next h"
    by (auto split: option.splits if_splits step.splits)
  from Suc.IH [OF g] have ih: "no_new_data_count g \<le> n"
    "\<forall>m<no_new_data_count g. new_records feed (n - Suc m) = 0" by simp_all
  from iteration_no_new_cases [OF it] show ?case
  proof
    assume a: "no_new_data_count h = Suc (no_new_data_count g) \<and> no_new_data_count g < 4 \<and>
      length (process_rows (rows_of (feed n)) (all_stocks_data g)) = previous_stock_count g"
    then have z: "new_records feed n = 0" using length_gives_no_new_records [OF g] by simp
    have "new_records feed (Suc n - Suc m) = 0" if "m < no_new_data_count h" for m
    proof (cases m)
      case 0
      with z show ?thesis by simp
    next
      case (Suc m')
      with that a have "m' < no_new_data_count g" by simp
      with ih(2) Suc show ?thesis by simp
    qed
    with a ih(1) show ?thesis by simp
  next
    assume "no_new_data_count h = 0"
    then show ?thesis by simp
  qed
qed

lemma stopped_by_break:
  "scrape_loop fuel feed i h0 = Some (Stopped e k h) \<Longrightarrow> state_at feed i = Some h0 \<Longrightarrow>
     e \<noteq> MaxAttempts \<Longrightarrow>
     \<exists>j g. k = Suc j \<and> state_at feed j = Some g \<and> scroll_attempts g < max_scroll_attempts \<and>
           iteration (feed j) g = Break e h"
proof (induction fuel arbitrary: i h0)
  case 0
  then show ?case by (auto split: if_splits)
next
  case (Suc fuel)
  show ?case
  proof (cases "scroll_attempts h0 < max_scroll_attempts")
    case False
    with Suc.prems show ?thesis by auto
  next
    case True
    show ?thesis
    proof (cases "iteration (feed i) h0")
      case (Next h1)
      with True Suc.prems have run: "scrape_loop fuel feed (Suc i) h1 = Some (Stopped e k h)"
        and st: "state_at feed (Suc i) = Some h1"
        by simp_all
      from Suc.IH [OF run st Suc.prems(3)] show ?thesis .
    next
      case (Break e1 h1)
      with True Suc.prems show ?thesis by auto
    next
      case Raise
      with True Suc.prems show ?thesis by simp
    qed
  qed
qed

lemma no_new_data_break:
  "iteration ob g = Break NoNewData h \<Longrightarrow>
     length (process_rows (rows_of ob) (all_stocks_data g)) = previous_stock_count g \<and>
     no_new_data_count h = Suc (no_new_data_count g) \<and> 4 \<le> no_new_data_count g"
  by (auto simp: iteration_def check_new_data_def check_height_def finish_iteration_def rows_of_def
      Let_def split: if_splits option.splits)

lemma no_new_data_exit:
  assumes "scrape_loop fuel feed 0 harvest_init = Some (Stopped NoNewData k h)"
  shows "5 \<le> k \<and> no_new_data_count h = 5 \<and> (\<forall>m<5. new_records feed (k - 5 + m) = 0)"
proof -
  have "state_at feed 0 = Some harvest_init" by simp
  from stopped_by_break [OF assms this] obtain j g where k: "k = Suc j"
    and g: "state_at feed j = Some g" and br: "iteration (feed j) g = Break NoNewData h"
    by auto
  from no_new_data_break [OF br]
  have len: "length (process_rows (rows_of (feed j)) (all_stocks_data g)) = previous_stock_count g"
    and cnt: "no_new_data_count h = Suc (no_new_data_count g)" and ge: "4 \<le> no_new_data_count g"
    by simp_all
  from no_new_count_meaning [OF g] ge
  have four: "no_new_data_count g = 4" and j4: "4 \<le> j"
    and old: "\<forall>m<4. new_records feed (j - Suc m) = 0" by simp_all
  from length_gives_no_new_records [OF g len] have zj: "new_records feed j = 0" .
  have "new_records feed (k - 5 + m) = 0" if "m < 5" for m
  proof (cases "m = 4")
    case True
    with k j4 zj show ?thesis by simp
  next
    case False
    with that have m: "3 - m < 4" by simp
    from that False k j4 have "k - 5 + m = j - Suc (3 - m)" by simp
    with old m show ?thesis by simp
  qed
  with k j4 cnt four show ?thesis by simp
qed

lemma repeat_reach: "state_at repeat_feed (1 + 4) = Some repeat_state"
  by code_simp

lemma repeat_zeros:
  "new_records repeat_feed (1 + 0) = 0" "new_records repeat_feed (1 + 1) = 0"
  "new_records repeat_feed (1 + 2) = 0" "new_records repeat_feed (1 + 3) = 0"
  "new_records repeat_feed (1 + 4) = 0"
  by code_simp+

lemma repeat_zero: "\<forall>m<5. new_records repeat_feed (1 + m) = 0"
proof (intro allI impI)
  fix m :: nat
  note z = repeat_zeros
  assume "m < 5"
  then consider "m = 0" | "m = 1" | "m = 2" | "m = 3" | "m = 4" by linarith
  then show "new_records repeat_feed (1 + m) = 0"
  proof cases
    case 1 show ?thesis unfolding 1 by (rule z(1))
  next
    case 2 show ?thesis unfolding 2 by (rule z(2))
  next
    case 3 show ?thesis unfolding 3 by (rule z(3))
  next
    case 4 show ?thesis unfolding 4 by (rule z(4))
  next
    case 5 show ?thesis unfolding 5 by (rule z(5))
  qed
qed

lemma fifth_quiet_iteration_stops:
  assumes reach: "state_at feed (n + 4) = Some h"
    and cond: "scroll_attempts h < max_scroll_attempts"
    and scr: "scrolls_ok (feed (n + 4))"
    and rows: "table_rows (feed (n + 4)) = Some rows" "rows \<noteq> []"
    and zero: "\<forall>m<5. new_records feed (n + m) = 0"
  shows "scrape_loop (n + 5 + fuel) feed 0 harvest_init =
           Some (Stopped NoNewData (n + 5) (h\<lparr>no_new_data_count := Suc (no_new_data_count h)\<rparr>))"
proof -
  from zero have z4: "\<forall>m<4. new_records feed (n + m) = 0" and z: "new_records feed (n + 4) = 0"
    by simp_all
  from no_new_streak [OF reach z4] have c: "4 \<le> no_new_data_count h" .
  from new_records_zero [OF reach z] rows
  have same: "process_rows rows (all_stocks_data h) = all_stocks_data h"
    by (simp add: rows_of_def)
  from state_at_data [OF reach] have p: "previous_stock_count h = length (all_stocks_data h)"
    by simp
  note br = fifth_iteration_breaks [OF scr rows same p c]
  have "scrape_loop (n + 4 + Suc fuel) feed 0 harvest_init = scrape_loop (Suc fuel) feed (n + 4) h"
    by (rule scrape_loop_resume [OF reach])
  with cond br show ?thesis by (simp add: add.commute add.left_commute)
qed


text \<open>
  C2, as stated: five consecutive iterations without a new record end the loop at the
  fifth of them, whatever the page heights. The heights do matter: on \<open>flat_feed\<close> the
  iterations with indices 1 to 5 would add no record, the height stays at 100 and the
  probe confirms it, and the loop is left at the third of them, after 4 iterations in
  all, by the \<^verbatim>\<open>break\<close> of the height check and with a count of 3.
\<close>

theorem stable_height_ends_before_fifth:
  "new_records flat_feed 1 = 0 \<and> new_records flat_feed 2 = 0 \<and> new_records flat_feed 3 = 0 \<and>
   new_records flat_feed 4 = 0 \<and> new_records flat_feed 5 = 0 \<and>
   scrape_loop 10 flat_feed 0 harvest_init = Some (Stopped ReachedEnd 4 flat_final)"
  by code_simp

text \<open>
  C2, amended: when the loop runs five consecutive iterations (with indices \<open>n\<close> to
  \<open>n + 4\<close>) none of which adds a record, it is left in the fifth of them by the
  \<^verbatim>\<open>break\<close> for no new data, after \<open>n + 5\<close> iterations in all. It does run all five when
  the count of iterations without new data is 0 before them, no driver call raises and
  the page height read in each of the first four differs from the one before; an
  unchanged height can end the loop earlier through the height check. The loop is left by
  the \<^verbatim>\<open>break\<close> for no new data only in this way: the count is then 5, at least five
  iterations have run, and the last five added no record.
\<close>

theorem no_new_data_stops_at_fifth:
  "(state_at feed (n + 4) = Some h \<and> scroll_attempts h < max_scroll_attempts \<and>
    scrolls_ok (feed (n + 4)) \<and> table_rows (feed (n + 4)) = Some rows \<and> rows \<noteq> [] \<and>
    (\<forall>m<5. new_records feed (n + m) = 0) \<longrightarrow>
      scrape_loop (n + 5 + fuel) feed 0 harvest_init =
        Some (Stopped NoNewData (n + 5) (h\<lparr>no_new_data_count := Suc (no_new_data_count h)\<rparr>))) \<and>
   (state_at feed n = Some start \<and> scroll_attempts start < max_scroll_attempts \<and>
    no_new_data_count start = 0 \<and>
    (\<forall>m<5. scrolls_ok (feed (n + m)) \<and> table_rows (feed (n + m)) \<noteq> None \<and>
            rows_of (feed (n + m)) \<noteq> [] \<and> new_records feed (n + m) = 0) \<and>
    (\<forall>m<4. screenshot (feed (n + m)) \<noteq> None) \<and>
    new_height (feed n) = Some va \<and> new_height (feed (n + 1)) = Some vb \<and>
    new_height (feed (n + 2)) = Some vc \<and> new_height (feed (n + 3)) = Some vd \<and>
    va \<noteq> last_height start \<and> vb \<noteq> va \<and> vc \<noteq> vb \<and> vd \<noteq> vc \<longrightarrow>
      scrape_loop (n + 5 + fuel) feed 0 harvest_init =
        Some (Stopped NoNewData (n + 5)
               (start\<lparr>last_height := vd, scroll_attempts := 0, no_new_data_count := 5\<rparr>))) \<and>
   (scrape_loop fuel feed 0 harvest_init = Some (Stopped NoNewData k g) \<longrightarrow>
      5 \<le> k \<and> no_new_data_count g = 5 \<and> (\<forall>m<5. new_records feed (k - 5 + m) = 0))"
proof (intro conjI impI)
  assume a: "state_at feed (n + 4) = Some h \<and> scroll_attempts h < max_scroll_attempts \<and>
    scrolls_ok (feed (n + 4)) \<and> table_rows (feed (n + 4)) = Some rows \<and> rows \<noteq> [] \<and>
    (\<forall>m<5. new_records feed (n + m) = 0)"
  then have a1: "state_at feed (n + 4) = Some h" and a2: "scroll_attempts h < max_scroll_attempts"
    and a3: "scrolls_ok (feed (n + 4))" and a4: "table_rows (feed (n + 4)) = Some rows"
    and a5: "rows \<noteq> []" and a6: "\<forall>m<5. new_records feed (n + m) = 0"
    by simp_all
  show "scrape_loop (n + 5 + fuel) feed 0 harvest_init =
        Some (Stopped NoNewData (n + 5) (h\<lparr>no_new_data_count := Suc (no_new_data_count h)\<rparr>))"
    by (rule fifth_quiet_iteration_stops [OF a1 a2 a3 a4 a5 a6])
next
  assume a: "state_at feed n = Some start \<and> scroll_attempts start < max_scroll_attempts \<and>
    no_new_data_count start = 0 \<and>
    (\<forall>m<5. scrolls_ok (feed (n + m)) \<and> table_rows (feed (n + m)) \<noteq> None \<and>
            rows_of (feed (n + m)) \<noteq> [] \<and> new_records feed (n + m) = 0) \<and>
    (\<forall>m<4. screenshot (feed (n + m)) \<noteq> None) \<and>
    new_height (feed n) = Some va \<and> new_height (feed (n + 1)) = Some vb \<and>
    new_height (feed (n + 2)) = Some vc \<and> new_height (feed (n + 3)) = Some vd \<and>
    va \<noteq> last_height start \<and> vb \<noteq> va \<and> vc \<noteq> vb \<and> vd \<noteq> vc"
  then have st: "state_at feed n = Some start" and c: "scroll_attempts start < max_scroll_attempts"
    and z0: "no_new_data_count start = 0"
    and five: "\<forall>m<5. scrolls_ok (feed (n + m)) \<and> table_rows (feed (n + m)) \<noteq> None \<and>
            rows_of (feed (n + m)) \<noteq> [] \<and> new_records feed (n + m) = 0"
    and shots: "\<forall>m<4. screenshot (feed (n + m)) \<noteq> None"
    and v: "new_height (feed n) = Some va" "new_height (feed (n + 1)) = Some vb"
           "new_height (feed (n + 2)) = Some vc" "new_height (feed (n + 3)) = Some vd"
    and d: "va \<noteq> last_height start" "vb \<noteq> va" "vc \<noteq> vb" "vd \<noteq> vc"
    by simp_all
  from five shots
  have it: "\<forall>m<4. scrolls_ok (feed (n + m)) \<and> table_rows (feed (n + m)) \<noteq> None \<and>
               rows_of (feed (n + m)) \<noteq> [] \<and> new_records feed (n + m) = 0 \<and>
               screenshot (feed (n + m)) \<noteq> None"
    by simp
  note r4 = four_quiet_steps [OF st z0 it v d c]
  from five have zs: "\<forall>m<5. new_records feed (n + m) = 0" by simp
  from five have "scrolls_ok (feed (n + 4)) \<and> table_rows (feed (n + 4)) \<noteq> None \<and>
      rows_of (feed (n + 4)) \<noteq> []" by simp
  then obtain rows where s4: "scrolls_ok (feed (n + 4))" and t4: "table_rows (feed (n + 4)) = Some rows"
    and ne: "rows \<noteq> []"
    by (auto simp: rows_of_def)
  have c4: "scroll_attempts (start\<lparr>last_height := vd, scroll_attempts := 0, no_new_data_count := 4\<rparr>)
      < max_scroll_attempts" by (simp add: max_scroll_attempts_def)
  from fifth_quiet_iteration_stops [OF r4 c4 s4 t4 ne zs, of fuel]
  show "scrape_loop (n + 5 + fuel) feed 0 harvest_init =
        Some (Stopped NoNewData (n + 5)
               (start\<lparr>last_height := vd, scroll_attempts := 0, no_new_data_count := 5\<rparr>))"
    by simp
next
  assume r: "scrape_loop fuel feed 0 harvest_init = Some (Stopped NoNewData k g)"
  note e = no_new_data_exit [OF r]
  from e show "5 \<le> k" by (rule conjunct1)
  from e show "no_new_data_count g = 5" by (rule conjunct2 [THEN conjunct1])
  from e show "\<forall>m<5. new_records feed (k - 5 + m) = 0" by (rule conjunct2 [THEN conjunct2])
qed

theorem no_new_data_stops_at_fifth_witness:
  "state_at repeat_feed (1 + 4) = Some repeat_state \<and>
   scroll_attempts repeat_state < max_scroll_attempts \<and>
   scrolls_ok (repeat_feed (1 + 4)) \<and>
   table_rows (repeat_feed (1 + 4)) = Some [mk_row ''A''] \<and> [mk_row ''A''] \<noteq> [] \<and>
   new_records repeat_feed (1 + 0) = 0 \<and> new_records repeat_feed (1 + 1) = 0 \<and>
   new_records repeat_feed (1 + 2) = 0 \<and> new_records repeat_feed (1 + 3) = 0 \<and>
   new_records repeat_feed (1 + 4) = 0 \<and>
   scrape_loop (1 + 5 + 3) repeat_feed 0 harvest_init =
     Some (Stopped NoNewData (1 + 5) (repeat_state\<lparr>no_new_data_count := Suc (no_new_data_count repeat_state)\<rparr>)) \<and>
   state_at repeat_feed 1 = Some repeat_start \<and>
   scroll_attempts repeat_start < max_scroll_attempts \<and> no_new_data_count repeat_start = 0 \<and>
   new_height (repeat_feed 1) = Some 200 \<and> new_height (repeat_feed (1 + 1)) = Some 300 \<and>
   new_height (repeat_feed (1 + 2)) = Some 400 \<and> new_height (repeat_feed (1 + 3)) = Some 500 \<and>
   200 \<noteq> last_height repeat_start \<and>
   scrape_loop (1 + 5 + 3) repeat_feed 0 harvest_init =
     Some (Stopped NoNewData (1 + 5)
            (repeat_start\<lparr>last_height := 500, scroll_attempts := 0, no_new_data_count := 5\<rparr>)) \<and>
   5 \<le> (1 + 5 :: nat) \<and>
   no_new_data_count (repeat_start\<lparr>last_height := 500, scroll_attempts := 0, no_new_data_count := 5\<rparr>) = 5"
proof -
  have c: "scroll_attempts repeat_state < max_scroll_attempts"
    by (simp add: repeat_state_def max_scroll_attempts_def)
  have s: "scrolls_ok (repeat_feed (1 + 4))" by (simp add: repeat_feed_def)
  have r: "table_rows (repeat_feed (1 + 4)) = Some [mk_row ''A'']" by (simp add: repeat_feed_def)
  have ne: "[mk_row ''A''] \<noteq> []" by simp
  note z = repeat_zeros
  have c0: "scroll_attempts repeat_start < max_scroll_attempts"
    and n0: "no_new_data_count repeat_start = 0" and l0: "200 \<noteq> last_height repeat_start"
    by (simp_all add: repeat_start_def max_scroll_attempts_def)
  have five: "\<forall>m<5. scrolls_ok (repeat_feed (1 + m)) \<and> table_rows (repeat_feed (1 + m)) \<noteq> None \<and>
            rows_of (repeat_feed (1 + m)) \<noteq> [] \<and> new_records repeat_feed (1 + m) = 0"
    using repeat_zero by (simp add: repeat_feed_def rows_of_def)
  have shots: "\<forall>m<4. screenshot (repeat_feed (1 + m)) \<noteq> None"
    by (simp add: repeat_feed_def)
  have v: "new_height (repeat_feed 1) = Some 200" "new_height (repeat_feed (1 + 1)) = Some 300"
    "new_height (repeat_feed (1 + 2)) = Some 400" "new_height (repeat_feed (1 + 3)) = Some 500"
    by (simp_all add: repeat_feed_def)
  have d: "(300::int) \<noteq> 200" "(400::int) \<noteq> 300" "(500::int) \<noteq> 400" by simp_all
  note t = no_new_data_stops_at_fifth
      [where feed = repeat_feed and n = 1 and h = repeat_state and rows = "[mk_row ''A'']"
         and fuel = "1 + 5 + 3" and start = repeat_start and va = 200 and vb = 300 and vc = 400
         and vd = 500 and k = "1 + 5"
         and g = "repeat_start\<lparr>last_height := 500, scroll_attempts := 0, no_new_data_count := 5\<rparr>"]
  note u = no_new_data_stops_at_fifth
      [where feed = repeat_feed and n = 1 and h = repeat_state and rows = "[mk_row ''A'']"
         and fuel = 3 and start = repeat_start and va = 200 and vb = 300 and vc = 400
         and vd = 500 and k = 0 and g = harvest_init]
  have A: "scrape_loop (1 + 5 + 3) repeat_feed 0 harvest_init =
     Some (Stopped NoNewData (1 + 5) (repeat_state\<lparr>no_new_data_count := Suc (no_new_data_count repeat_state)\<rparr>))"
    using u [THEN conjunct1] repeat_reach c s r ne repeat_zero by blast
  have B: "scrape_loop (1 + 5 + 3) repeat_feed 0 harvest_init =
     Some (Stopped NoNewData (1 + 5)
            (repeat_start\<lparr>last_height := 500, scroll_attempts := 0, no_new_data_count := 5\<rparr>))"
    using u [THEN conjunct2, THEN conjunct1] repeat_start_reach c0 n0 five shots v l0 d by blast
  from t [THEN conjunct2, THEN conjunct2, rule_format, OF B]
  have C: "5 \<le> (1 + 5 :: nat)"
    "no_new_data_count (repeat_start\<lparr>last_height := 500, scroll_attempts := 0, no_new_data_count := 5\<rparr>) = 5"
    by simp_all
  from repeat_reach c s r ne z A repeat_start_reach c0 n0 v l0 B C show ?thesis by (intro conjI)
qed


section \<open>The probe of the very bottom (C3)\<close>

lemma probe_step: "iteration (probe_feed 3) probe_state = Next probe_next"
  by code_simp





section \<open>A wait that raises (C5)\<close>

lemma wait_raises_stops:
  assumes "state_at feed n = Some h" and "scroll_attempts h < max_scroll_attempts"
    and "scrolls_ok (feed n)" and "table_rows (feed n) = None"
  shows "scrape_loop (Suc n + fuel) feed 0 harvest_init = Some (Stopped WaitError (Suc n) h)"
proof -
  have "scrape_loop (n + Suc fuel) feed 0 harvest_init = scrape_loop (Suc fuel) feed n h"
    by (rule scrape_loop_resume [OF assms(1)])
  with assms(2-4) show ?thesis by (simp add: iteration_def)
qed

lemma raise_returns_none:
  assumes "state_at feed n = Some h" and "scroll_attempts h < max_scroll_attempts"
    and "iteration (feed n) h = Raise"
  shows "scrape_stock_data (Suc n + fuel) True feed = Some ReturnsNone"
proof -
  have "scrape_loop (n + Suc fuel) feed 0 harvest_init = scrape_loop (Suc fuel) feed n h"
    by (rule scrape_loop_resume [OF assms(1)])
  with assms(2,3) show ?thesis by (simp add: scrape_stock_data_def)
qed

lemma timeout_reach: "state_at timeout_feed 1 = Some timeout_state"
  by code_simp

lemma first_wait_reach: "state_at (\<lambda>i. timeout_feed (Suc i)) 0 = Some harvest_init"
  by simp

text \<open>
  C5, as stated: a wait that times out after stocks were accumulated counts as an
  iteration without new rows, and the loop goes on to later iterations. The code leaves
  the loop instead: on \<open>timeout_feed\<close> the wait of the second iteration raises, the loop
  stops there, and row B of the third iteration is never read.
\<close>

theorem wait_timeout_ends_harvest:
  "table_rows (timeout_feed 1) = None \<and>
   candidates (rows_of (timeout_feed 2)) = [''B''] \<and>
   scrape_loop 10 timeout_feed 0 harvest_init = Some (Stopped WaitError 2 timeout_state) \<and>
   scrape_stock_data 10 True timeout_feed = Some (Returns (all_stocks_data timeout_state))"
  by code_simp

text \<open>
  C5, amended: when the wait raises in an iteration the loop runs, the loop is left at
  once by \<^verbatim>\<open>break\<close> with its variables unchanged and no later iteration runs. The run
  returns \<^verbatim>\<open>None\<close> when no stock was accumulated before, and otherwise the stocks
  accumulated so far.
\<close>

theorem wait_failure_stops_loop:
  assumes "state_at feed n = Some h" and "scroll_attempts h < max_scroll_attempts"
    and "scrolls_ok (feed n)" and "table_rows (feed n) = None"
  shows "scrape_loop (Suc n + fuel) feed 0 harvest_init = Some (Stopped WaitError (Suc n) h) \<and>
         scrape_stock_data (Suc n + fuel) True feed =
           Some (if all_stocks_data h = [] then ReturnsNone else Returns (all_stocks_data h))"
  using wait_raises_stops [OF assms, of fuel]
  by (simp add: scrape_stock_data_def finalize_def)

theorem wait_failure_stops_loop_witness:
  "state_at timeout_feed 1 = Some timeout_state \<and>
   scroll_attempts timeout_state < max_scroll_attempts \<and>
   scrolls_ok (timeout_feed 1) \<and> table_rows (timeout_feed 1) = None \<and>
   scrape_loop (Suc 1 + 8) timeout_feed 0 harvest_init = Some (Stopped WaitError (Suc 1) timeout_state) \<and>
   scrape_stock_data (Suc 1 + 8) True timeout_feed = Some (Returns (all_stocks_data timeout_state)) \<and>
   state_at (\<lambda>i. timeout_feed (Suc i)) 0 = Some harvest_init \<and>
   scrape_stock_data (Suc 0 + 8) True (\<lambda>i. timeout_feed (Suc i)) = Some ReturnsNone"
proof -
  have c: "scroll_attempts timeout_state < max_scroll_attempts"
    by (simp add: timeout_state_def max_scroll_attempts_def)
  have s: "scrolls_ok (timeout_feed 1)" and r: "table_rows (timeout_feed 1) = None"
    by (simp_all add: timeout_feed_def)
  have ne: "all_stocks_data timeout_state \<noteq> []" by (simp add: timeout_state_def)
  have c0: "scroll_attempts harvest_init < max_scroll_attempts"
    by (simp add: harvest_init_def max_scroll_attempts_def)
  have s0: "scrolls_ok (timeout_feed (Suc 0))" and r0: "table_rows (timeout_feed (Suc 0)) = None"
    by (simp_all add: timeout_feed_def)
  have e0: "all_stocks_data harvest_init = []" by (simp add: harvest_init_def)
  note t1 = wait_failure_stops_loop [OF timeout_reach c s r, of 8]
  note t0 = wait_failure_stops_loop [of "\<lambda>i. timeout_feed (Suc i)" 0 harvest_init 8, OF first_wait_reach c0 s0 r0]
  from t1 have l: "scrape_loop (Suc 1 + 8) timeout_feed 0 harvest_init =
      Some (Stopped WaitError (Suc 1) timeout_state)" by (rule conjunct1)
  from t1 ne have d: "scrape_stock_data (Suc 1 + 8) True timeout_feed =
      Some (Returns (all_stocks_data timeout_state))" by (simp only: if_False)
  from t0 e0 have n: "scrape_stock_data (Suc 0 + 8) True (\<lambda>i. timeout_feed (Suc i)) = Some ReturnsNone"
    by (simp only: simp_thms if_True)
  from timeout_reach c s r l d first_wait_reach n show ?thesis by (intro conjI)
qed

section \<open>Driver errors (C6)\<close>

lemma abac_reach: "state_at abac_feed 2 = Some abac_final"
  by code_simp

lemma scroll_fail_reach: "state_at scroll_fail_feed 1 = Some timeout_state"
  by code_simp

text \<open>
  C6, as stated: a driver error during Loading, Scrolling or Waiting discards what was
  accumulated, so that no run returns a partial dataset. The code does return one after
  an error during Waiting: on \<open>abac_feed\<close> the wait of the third iteration raises and the
  run returns the three stocks accumulated before.
\<close>

theorem wait_error_returns_partial_data:
  "table_rows (abac_feed 2) = None \<and>
   scrape_stock_data 5 True abac_feed = Some (Returns abac_stocks) \<and>
   length abac_stocks = 3"
  by code_simp

text \<open>
  C6, amended: a driver error during Loading (\<^verbatim>\<open>driver.get\<close> raises) or during Scrolling
  (a scroll script raises in an iteration the loop runs) ends in the outer handler: the
  run returns \<^verbatim>\<open>None\<close> and what was accumulated is discarded. An error during Waiting
  is caught inside the loop: the loop stops and the run returns the stocks accumulated so
  far when there is at least one.
\<close>

theorem driver_errors_by_stage:
  "(\<not> get_ok \<longrightarrow> scrape_stock_data fuel get_ok feed = Some ReturnsNone) \<and>
   (state_at feed n = Some h \<and> scroll_attempts h < max_scroll_attempts \<and> \<not> scrolls_ok (feed n) \<longrightarrow>
      scrape_stock_data (Suc n + fuel) True feed = Some ReturnsNone) \<and>
   (state_at feed n = Some h \<and> scroll_attempts h < max_scroll_attempts \<and> scrolls_ok (feed n) \<and>
    table_rows (feed n) = None \<and> all_stocks_data h \<noteq> [] \<longrightarrow>
      scrape_stock_data (Suc n + fuel) True feed = Some (Returns (all_stocks_data h)))"
proof (intro conjI impI)
  assume "\<not> get_ok"
  then show "scrape_stock_data fuel get_ok feed = Some ReturnsNone"
    by (simp add: scrape_stock_data_def)
next
  assume a: "state_at feed n = Some h \<and> scroll_attempts h < max_scroll_attempts \<and> \<not> scrolls_ok (feed n)"
  then have "iteration (feed n) h = Raise" by (simp add: iteration_def)
  with a show "scrape_stock_data (Suc n + fuel) True feed = Some ReturnsNone"
    by (intro raise_returns_none [of feed n h]) simp_all
next
  assume a: "state_at feed n = Some h \<and> scroll_attempts h < max_scroll_attempts \<and> scrolls_ok (feed n) \<and>
    table_rows (feed n) = None \<and> all_stocks_data h \<noteq> []"
  then have "scrape_loop (Suc n + fuel) feed 0 harvest_init = Some (Stopped WaitError (Suc n) h)"
    by (intro wait_raises_stops) simp_all
  with a show "scrape_stock_data (Suc n + fuel) True feed = Some (Returns (all_stocks_data h))"
    by (simp add: scrape_stock_data_def finalize_def)
qed

theorem driver_errors_by_stage_witness:
  "scrape_stock_data 9 False abac_feed = Some ReturnsNone \<and>
   state_at scroll_fail_feed 1 = Some timeout_state \<and>
   scroll_attempts timeout_state < max_scroll_attempts \<and> \<not> scrolls_ok (scroll_fail_feed 1) \<and>
   all_stocks_data timeout_state \<noteq> [] \<and>
   scrape_stock_data (Suc 1 + 7) True scroll_fail_feed = Some ReturnsNone \<and>
   state_at abac_feed 2 = Some abac_final \<and>
   scroll_attempts abac_final < max_scroll_attempts \<and> scrolls_ok (abac_feed 2) \<and>
   table_rows (abac_feed 2) = None \<and> all_stocks_data abac_final \<noteq> [] \<and>
   scrape_stock_data (Suc 2 + 7) True abac_feed = Some (Returns (all_stocks_data abac_final))"
proof -
  have a: "\<not> False" by simp
  have c1: "scroll_attempts timeout_state < max_scroll_attempts"
    and n1: "all_stocks_data timeout_state \<noteq> []"
    by (simp_all add: timeout_state_def max_scroll_attempts_def)
  have s1: "\<not> scrolls_ok (scroll_fail_feed 1)" by (simp add: scroll_fail_feed_def)
  have c2: "scroll_attempts abac_final < max_scroll_attempts"
    and n2: "all_stocks_data abac_final \<noteq> []"
    by (simp_all add: abac_final_def abac_stocks_def max_scroll_attempts_def)
  have s2: "scrolls_ok (abac_feed 2)" and r2: "table_rows (abac_feed 2) = None"
    by (simp_all add: abac_feed_def)
  from driver_errors_by_stage [of False 9 abac_feed] a
  have t0: "scrape_stock_data 9 False abac_feed = Some ReturnsNone" by blast
  from driver_errors_by_stage [of True 7 scroll_fail_feed 1 timeout_state] scroll_fail_reach c1 s1
  have t1: "scrape_stock_data (Suc 1 + 7) True scroll_fail_feed = Some ReturnsNone" by blast
  from driver_errors_by_stage [of True 7 abac_feed 2 abac_final] abac_reach c2 s2 r2 n2
  have t2: "scrape_stock_data (Suc 2 + 7) True abac_feed = Some (Returns (all_stocks_data abac_final))"
    by blast
  from t0 scroll_fail_reach c1 s1 n1 t1 abac_reach c2 s2 r2 n2 t2 show ?thesis by (intro conjI)
qed

section \<open>The periodic screenshot (C9)\<close>

lemma fifty_step: "iteration (snapshot_feed (Some True) 0) harvest_init = Next fifty_state"
  by code_simp

text \<open>
  C9, as stated: a failure while capturing the screenshot never aborts the loop or
  changes the outcome of the run. The code has no handler around \<^verbatim>\<open>save_screenshot\<close>:
  on \<open>snapshot_feed\<close> the first iteration accumulates 50 stocks, so the screenshot is
  requested; when it is taken the run returns the 50 stocks, and when it raises the run
  returns \<^verbatim>\<open>None\<close>.
\<close>

theorem raising_screenshot_discards_harvest:
  "scrape_stock_data 5 True (snapshot_feed (Some True)) = Some (Returns fifty_stocks) \<and>
   length fifty_stocks = 50 \<and>
   scrape_stock_data 5 True (snapshot_feed None) = Some ReturnsNone"
  by code_simp

text \<open>
  C9, amended: the value \<^verbatim>\<open>save_screenshot\<close> returns is ignored, so a screenshot that
  could not be written (it returns \<^verbatim>\<open>False\<close>) changes nothing. A screenshot that raises
  is an exception like any other outside the wait and the row loop: an iteration that
  would fall through with a number of stocks that is a multiple of 50 raises instead, and
  a run whose iteration raises returns \<^verbatim>\<open>None\<close>. With any other number of stocks no
  screenshot is requested and the iteration is the same.
\<close>

theorem screenshot_failure_effects:
  "iteration (ob\<lparr>screenshot := Some b\<rparr>) h = iteration (ob\<lparr>screenshot := Some b'\<rparr>) h \<and>
   (\<forall>h'. iteration (ob\<lparr>screenshot := Some b\<rparr>) h = Next h' \<and> length (all_stocks_data h') mod 50 = 0 \<longrightarrow>
      iteration (ob\<lparr>screenshot := None\<rparr>) h = Raise) \<and>
   (\<forall>h'. iteration (ob\<lparr>screenshot := Some b\<rparr>) h = Next h' \<and> length (all_stocks_data h') mod 50 \<noteq> 0 \<longrightarrow>
      iteration (ob\<lparr>screenshot := None\<rparr>) h = Next h') \<and>
   (state_at feed n = Some h \<and> scroll_attempts h < max_scroll_attempts \<and> iteration (feed n) h = Raise \<longrightarrow>
      scrape_stock_data (Suc n + fuel) True feed = Some ReturnsNone)"
proof (intro conjI allI impI)
  show "iteration (ob\<lparr>screenshot := Some b\<rparr>) h = iteration (ob\<lparr>screenshot := Some b'\<rparr>) h"
    by (simp add: iteration_def check_new_data_def check_height_def finish_iteration_def Let_def
        split: option.splits)
next
  fix h'
  assume "iteration (ob\<lparr>screenshot := Some b\<rparr>) h = Next h' \<and> length (all_stocks_data h') mod 50 = 0"
  then show "iteration (ob\<lparr>screenshot := None\<rparr>) h = Raise"
    by (auto simp: iteration_def check_new_data_def check_height_def finish_iteration_def Let_def
        split: option.splits if_splits)
next
  fix h'
  assume "iteration (ob\<lparr>screenshot := Some b\<rparr>) h = Next h' \<and> length (all_stocks_data h') mod 50 \<noteq> 0"
  then show "iteration (ob\<lparr>screenshot := None\<rparr>) h = Next h'"
    by (auto simp: iteration_def check_new_data_def check_height_def finish_iteration_def Let_def
        split: option.splits if_splits)
next
  assume "state_at feed n = Some h \<and> scroll_attempts h < max_scroll_attempts \<and> iteration (feed n) h = Raise"
  then show "scrape_stock_data (Suc n + fuel) True feed = Some ReturnsNone"
    by (intro raise_returns_none [of feed n h]) simp_all
qed

theorem screenshot_failure_effects_witness:
  "iteration ((snapshot_feed (Some True) 0)\<lparr>screenshot := Some True\<rparr>) harvest_init =
     iteration ((snapshot_feed (Some True) 0)\<lparr>screenshot := Some False\<rparr>) harvest_init \<and>
   iteration ((snapshot_feed (Some True) 0)\<lparr>screenshot := Some True\<rparr>) harvest_init = Next fifty_state \<and>
   length (all_stocks_data fifty_state) mod 50 = 0 \<and>
   iteration ((snapshot_feed (Some True) 0)\<lparr>screenshot := None\<rparr>) harvest_init = Raise \<and>
   iteration ((probe_feed 3)\<lparr>screenshot := Some True\<rparr>) probe_state = Next probe_next \<and>
   length (all_stocks_data probe_next) mod 50 \<noteq> 0 \<and>
   iteration ((probe_feed 3)\<lparr>screenshot := None\<rparr>) probe_state = Next probe_next \<and>
   state_at (snapshot_feed None) 0 = Some harvest_init \<and>
   scroll_attempts harvest_init < max_scroll_attempts \<and>
   iteration (snapshot_feed None 0) harvest_init = Raise \<and>
   scrape_stock_data (Suc 0 + 4) True (snapshot_feed None) = Some ReturnsNone"
proof -
  have e1: "(snapshot_feed (Some True) 0)\<lparr>screenshot := Some True\<rparr> = snapshot_feed (Some True) 0"
    and e2: "(snapshot_feed (Some True) 0)\<lparr>screenshot := None\<rparr> = snapshot_feed None 0"
    and e3: "(probe_feed 3)\<lparr>screenshot := Some True\<rparr> = probe_feed 3"
    by (simp_all add: snapshot_feed_def probe_feed_def)
  have s1: "iteration ((snapshot_feed (Some True) 0)\<lparr>screenshot := Some True\<rparr>) harvest_init = Next fifty_state"
    unfolding e1 by (rule fifty_step)
  have m1: "length (all_stocks_data fifty_state) mod 50 = 0"
    by (simp add: fifty_state_def fifty_stocks_def)
  have s2: "iteration ((probe_feed 3)\<lparr>screenshot := Some True\<rparr>) probe_state = Next probe_next"
    unfolding e3 by (rule probe_step)
  have m2: "length (all_stocks_data probe_next) mod 50 \<noteq> 0"
    by (simp add: probe_next_def)
  have r0: "state_at (snapshot_feed None) 0 = Some harvest_init" by simp
  have c0: "scroll_attempts harvest_init < max_scroll_attempts"
    by (simp add: harvest_init_def max_scroll_attempts_def)
  note t1 = screenshot_failure_effects [where ob = "snapshot_feed (Some True) 0" and b = True and h = harvest_init
      and b' = False and feed = "snapshot_feed None" and n = 0 and fuel = 4]
  note t2 = screenshot_failure_effects [where ob = "probe_feed 3" and b = True and h = probe_state
      and b' = True and feed = "snapshot_feed None" and n = 0 and fuel = 4]
  from t1 have q1: "iteration ((snapshot_feed (Some True) 0)\<lparr>screenshot := Some True\<rparr>) harvest_init =
     iteration ((snapshot_feed (Some True) 0)\<lparr>screenshot := Some False\<rparr>) harvest_init"
    by (rule conjunct1)
  have q2: "iteration ((snapshot_feed (Some True) 0)\<lparr>screenshot := None\<rparr>) harvest_init = Raise"
    by (rule t1 [THEN conjunct2, THEN conjunct1, rule_format, OF conjI [OF s1 m1]])
  have q3: "iteration ((probe_feed 3)\<lparr>screenshot := None\<rparr>) probe_state = Next probe_next"
    by (rule t2 [THEN conjunct2, THEN conjunct2, THEN conjunct1, rule_format, OF conjI [OF s2 m2]])
  from q2 have q4: "iteration (snapshot_feed None 0) harvest_init = Raise"
    unfolding e2 .
  have q5: "scrape_stock_data (Suc 0 + 4) True (snapshot_feed None) = Some ReturnsNone"
    by (rule t1 [THEN conjunct2, THEN conjunct2, THEN conjunct2, rule_format,
          OF conjI [OF r0 conjI [OF c0 q4]]])
  from q1 s1 m1 q2 s2 m2 q3 r0 c0 q4 q5 show ?thesis by (intro conjI)
qed

section \<open>Cleaning the price (C7)\<close>

text \<open>Values of \<open>py_float\<close> on texts at the edges of what \<^verbatim>\<open>float\<close> accepts and of its
  rounding: separators that \<^verbatim>\<open>str.strip\<close> drops and \<^verbatim>\<open>float\<close> does not, underscores,
  signs, the special values, a tie, the largest number, overflow, and underflow.\<close>

lemma py_float_values:
  "py_float [CHR 0x1C, CHR ''5''] = None"
  "py_float [CHR 0xA0, CHR ''5''] = Some (Fin 5 0)"
  "py_float ''1_000'' = Some (Fin 125 3)"
  "py_float ''1__0'' = None"
  "py_float ''1e'' = None"
  "py_float ''1.e3'' = Some (Fin 125 3)"
  "py_float ''.5'' = Some (Fin 1 (- 1))"
  "py_float ''-0'' = Some NegZero"
  "py_float ''-Infinity'' = Some NegInf"
  "py_float ''nAn'' = Some NaN"
  "py_float ''0.1'' = Some (Fin 3602879701896397 (- 55))"
  "py_float ''1234.50'' = Some (Fin 2469 (- 1))"
  "py_float ''9007199254740993'' = Some (Fin 1 53)"
  "py_float ''1.7976931348623157e308'' = Some (Fin 9007199254740991 971)"
  "py_float ''1.7976931348623159e308'' = Some PosInf"
  "py_float ''1e400'' = Some PosInf"
  "py_float ''5e-324'' = Some (Fin 1 (- 1074))"
  "py_float ''2e-324'' = Some (Fin 0 0)"
  "py_float ''-1e-400'' = Some NegZero"
  by code_simp+

lemma na_stock: "stock_of_row (price_row ''N/A'') = Some (priced_stock (PyFloat (Fin 0 0)))"
  by code_simp

text \<open>
  C7, as stated: every price text whose numeric parse fails gives the price 0, and so the
  price of every record is a non-negative number. The code does not do so: the empty
  text, which \<^verbatim>\<open>float\<close> rejects, is never parsed and stays in the record as the empty
  string; the text \<^verbatim>\<open>-5\<close> parses to the negative price \<open>-5\<close>, and the text \<^verbatim>\<open>nan\<close> to
  not-a-number.
\<close>

theorem empty_or_negative_price_text:
  "py_float [] = None \<and>
   process_row (price_row []) [] = [priced_stock (PyStr [])] \<and>
   process_row (price_row ''-5'') [] = [priced_stock (PyFloat (Fin (- 5) 0))] \<and>
   process_row (price_row ''nan'') [] = [priced_stock (PyFloat NaN)]"
  by code_simp

text \<open>
  C7, amended: a price text that is not empty after stripping and removing commas and that
  \<^verbatim>\<open>float\<close> rejects (such as \<^verbatim>\<open>N/A\<close>) gives the price \<open>0.0\<close> and a logged warning; a
  text that is empty after cleaning stays as the empty string, without a warning; a text
  that parses gives the parsed float, which may be negative, infinite or not-a-number.
  None of the three aborts the row: a row that is offered under a new name is appended
  with the price so obtained.
\<close>

theorem price_cleaning_cases:
  "(remove_commas (py_strip t) \<noteq> [] \<and> py_float (remove_commas (py_strip t)) = None \<longrightarrow>
      clean_price t = (PyFloat (Fin 0 0), Some (remove_commas (py_strip t)))) \<and>
   (remove_commas (py_strip t) = [] \<longrightarrow> clean_price t = (PyStr [], None)) \<and>
   (\<forall>v. remove_commas (py_strip t) \<noteq> [] \<and> py_float (remove_commas (py_strip t)) = Some v \<longrightarrow>
      clean_price t = (PyFloat v, None)) \<and>
   (\<forall>s. stock_of_row (Row cols clock) = Some s \<and> name s \<notin> set (map name acc) \<longrightarrow>
      process_row (Row cols clock) acc = acc @ [s] \<and>
      price s = fst (clean_price (the (cols ! 1))))"
proof (intro conjI allI impI)
  fix s
  assume a: "stock_of_row (Row cols clock) = Some s \<and> name s \<notin> set (map name acc)"
  then show "process_row (Row cols clock) acc = acc @ [s]"
    by (simp add: process_row_stock)
  from a show "price s = fst (clean_price (the (cols ! 1)))"
    by (auto simp: stock_of_row_def split: option.splits)
qed (simp_all add: clean_price_def)

theorem price_cleaning_cases_witness:
  "remove_commas (py_strip ''N/A'') \<noteq> [] \<and> py_float (remove_commas (py_strip ''N/A'')) = None \<and>
   clean_price ''N/A'' = (PyFloat (Fin 0 0), Some ''N/A'') \<and>
   py_float (remove_commas (py_strip [CHR '','', CHR 0x1C, CHR ''5''])) = None \<and>
   clean_price [CHR '','', CHR 0x1C, CHR ''5''] = (PyFloat (Fin 0 0), Some [CHR 0x1C, CHR ''5'']) \<and>
   remove_commas (py_strip '','') = [] \<and> clean_price '','' = (PyStr [], None) \<and>
   py_float (remove_commas (py_strip ''-1,000'')) = Some (Fin (- 125) 3) \<and>
   clean_price ''-1,000'' = (PyFloat (Fin (- 125) 3), None) \<and>
   py_float (remove_commas (py_strip ''1e400'')) = Some PosInf \<and>
   clean_price ''1e400'' = (PyFloat PosInf, None) \<and>
   stock_of_row (price_row ''N/A'') = Some (priced_stock (PyFloat (Fin 0 0))) \<and>
   process_row (price_row ''N/A'') [] = [priced_stock (PyFloat (Fin 0 0))]"
proof -
  have c: "remove_commas (py_strip ''N/A'') = ''N/A''" by code_simp
  have a1: "remove_commas (py_strip ''N/A'') \<noteq> []" unfolding c by simp
  have a2: "py_float (remove_commas (py_strip ''N/A'')) = None" by code_simp
  have e: "remove_commas (py_strip [CHR '','', CHR 0x1C, CHR ''5'']) = [CHR 0x1C, CHR ''5'']"
    by code_simp
  have e1: "remove_commas (py_strip [CHR '','', CHR 0x1C, CHR ''5'']) \<noteq> []" unfolding e by simp
  have e2: "py_float (remove_commas (py_strip [CHR '','', CHR 0x1C, CHR ''5''])) = None"
    by code_simp
  have b1: "remove_commas (py_strip '','') = []" by code_simp
  have d1: "remove_commas (py_strip ''-1,000'') \<noteq> []" by code_simp
  have d2: "py_float (remove_commas (py_strip ''-1,000'')) = Some (Fin (- 125) 3)" by code_simp
  have f1: "remove_commas (py_strip ''1e400'') \<noteq> []" by code_simp
  have f2: "py_float (remove_commas (py_strip ''1e400'')) = Some PosInf" by code_simp
  have n: "name (priced_stock (PyFloat (Fin 0 0))) \<notin> set (map name [])" by simp
  note t1 = price_cleaning_cases [where t = "''N/A''" and cols = "[]" and clock = "[]" and acc = "[]"]
  note t2 = price_cleaning_cases [where t = "'',''" and cols = "[]" and clock = "[]" and acc = "[]"]
  note t3 = price_cleaning_cases [where t = "''-1,000''" and cols = "[]" and clock = "[]" and acc = "[]"]
  note t4 = price_cleaning_cases [where t = "[]" and acc = "[]" and clock = "''09:00:00''"
      and cols = "[Some ''X'', Some ''N/A'', Some ''+1%'', Some ''5'', Some ''50'']",
      folded price_row_def]
  note t5 = price_cleaning_cases [where t = "[CHR '','', CHR 0x1C, CHR ''5'']" and cols = "[]"
      and clock = "[]" and acc = "[]"]
  note t6 = price_cleaning_cases [where t = "''1e400''" and cols = "[]" and clock = "[]" and acc = "[]"]
  have r1: "clean_price ''N/A'' = (PyFloat (Fin 0 0), Some ''N/A'')"
    using t1 [THEN conjunct1, rule_format, OF conjI [OF a1 a2]] unfolding c .
  have r5: "clean_price [CHR '','', CHR 0x1C, CHR ''5''] = (PyFloat (Fin 0 0), Some [CHR 0x1C, CHR ''5''])"
    using t5 [THEN conjunct1, rule_format, OF conjI [OF e1 e2]] unfolding e .
  have r2: "clean_price '','' = (PyStr [], None)"
    by (rule t2 [THEN conjunct2, THEN conjunct1, rule_format, OF b1])
  have r3: "clean_price ''-1,000'' = (PyFloat (Fin (- 125) 3), None)"
    by (rule t3 [THEN conjunct2, THEN conjunct2, THEN conjunct1, rule_format, OF conjI [OF d1 d2]])
  have r6: "clean_price ''1e400'' = (PyFloat PosInf, None)"
    by (rule t6 [THEN conjunct2, THEN conjunct2, THEN conjunct1, rule_format, OF conjI [OF f1 f2]])
  have r4: "process_row (price_row ''N/A'') [] = [] @ [priced_stock (PyFloat (Fin 0 0))]"
    by (rule t4 [THEN conjunct2, THEN conjunct2, THEN conjunct2, rule_format,
          OF conjI [OF na_stock n], THEN conjunct1])
  from r4 have r4': "process_row (price_row ''N/A'') [] = [priced_stock (PyFloat (Fin 0 0))]"
    by simp
  from a1 a2 r1 e2 r5 b1 r2 d2 r3 f2 r6 na_stock r4' show ?thesis by (intro conjI)
qed

section \<open>Saving twice (C8)\<close>

text \<open>
  C8: saving to a file that does not exist writes the header line and then one line per
  stock, with the columns timestamp, name, symbol, price, change_percent, volume, value;
  saving to a file that exists appends the lines of the stocks and writes no header. So
  two saves in a row to a file that did not exist leave one header line followed by the
  lines of the first and then of the second list (the file can be opened both times).
\<close>

theorem header_once_then_rows_in_call_order:
  assumes "content f = None" and "readable f" and "writable f"
  shows "save_to_csv a f = (True, f\<lparr>content := Some (header_line # map csv_row a)\<rparr>) \<and>
         save_to_csv b (snd (save_to_csv a f)) =
           (True, f\<lparr>content := Some (header_line # map csv_row a @ map csv_row b)\<rparr>) \<and>
         header_line =
           map PyStr [''timestamp'', ''name'', ''symbol'', ''price'', ''change_percent'', ''volume'', ''value''] \<and>
         (\<forall>s \<in> set (a @ b). csv_row s =
            [PyStr (timestamp s), PyStr (name s), PyStr (symbol s), price s,
             PyStr (change_percent s), PyStr (volume s), PyStr (value_rupees s)]) \<and>
         (\<forall>g ls. content g = Some ls \<and> readable g \<and> writable g \<longrightarrow>
            save_to_csv a g = (True, g\<lparr>content := Some (ls @ map csv_row a)\<rparr>))"
  using assms by (simp add: save_to_csv_def header_line_def headers_def csv_row_def)

theorem header_once_then_rows_in_call_order_witness:
  "content absent_sink = None \<and> readable absent_sink \<and> writable absent_sink \<and>
   save_to_csv (take 1 abac_stocks) absent_sink =
     (True, absent_sink\<lparr>content := Some (header_line # map csv_row (take 1 abac_stocks))\<rparr>) \<and>
   save_to_csv (drop 1 abac_stocks) (snd (save_to_csv (take 1 abac_stocks) absent_sink)) =
     (True, absent_sink\<lparr>content := Some (header_line # map csv_row abac_stocks)\<rparr>)"
proof -
  have a: "content absent_sink = None" "readable absent_sink" "writable absent_sink"
    by (simp_all add: absent_sink_def)
  have e: "map csv_row (take 1 abac_stocks) @ map csv_row (drop 1 abac_stocks) = map csv_row abac_stocks"
    by (simp only: map_append [symmetric] append_take_drop_id)
  note t = header_once_then_rows_in_call_order [OF a, of "take 1 abac_stocks" "drop 1 abac_stocks"]
  from t [THEN conjunct1] t [THEN conjunct2, THEN conjunct1] a e show ?thesis by simp
qed

section \<open>An existing, empty file (C10)\<close>

text \<open>
  C10: whether the header is written depends only on whether the file can be opened for
  reading, not on what it holds. A file that exists and is empty gets the lines of the
  stocks and no header, at the first save and at the next; a file that exists gets the
  lines appended to whatever it holds; a file that exists and cannot be read is left as
  it is; only a file that does not exist gets the header.
\<close>

theorem header_depends_on_existence_only:
  "(content f = Some [] \<and> readable f \<and> writable f \<longrightarrow>
      save_to_csv a f = (True, f\<lparr>content := Some (map csv_row a)\<rparr>) \<and>
      save_to_csv b (snd (save_to_csv a f)) = (True, f\<lparr>content := Some (map csv_row a @ map csv_row b)\<rparr>)) \<and>
   (\<forall>ls. content f = Some ls \<and> readable f \<and> writable f \<longrightarrow>
      save_to_csv a f = (True, f\<lparr>content := Some (ls @ map csv_row a)\<rparr>)) \<and>
   (content f \<noteq> None \<and> \<not> readable f \<longrightarrow> save_to_csv a f = (False, f)) \<and>
   (content f = None \<and> writable f \<longrightarrow>
      save_to_csv a f = (True, f\<lparr>content := Some (header_line # map csv_row a)\<rparr>))"
  by (auto simp: save_to_csv_def)

theorem header_depends_on_existence_only_witness:
  "content empty_sink = Some [] \<and> readable empty_sink \<and> writable empty_sink \<and>
   save_to_csv (take 1 abac_stocks) empty_sink =
     (True, empty_sink\<lparr>content := Some (map csv_row (take 1 abac_stocks))\<rparr>) \<and>
   save_to_csv (drop 1 abac_stocks) (snd (save_to_csv (take 1 abac_stocks) empty_sink)) =
     (True, empty_sink\<lparr>content := Some (map csv_row abac_stocks)\<rparr>) \<and>
   header_line \<notin> set (map csv_row abac_stocks) \<and>
   save_to_csv abac_stocks (empty_sink\<lparr>readable := False\<rparr>) = (False, empty_sink\<lparr>readable := False\<rparr>) \<and>
   save_to_csv abac_stocks absent_sink =
     (True, absent_sink\<lparr>content := Some (header_line # map csv_row abac_stocks)\<rparr>)"
proof -
  have a: "content empty_sink = Some []" "readable empty_sink" "writable empty_sink"
    by (simp_all add: empty_sink_def)
  have e: "map csv_row (take 1 abac_stocks) @ map csv_row (drop 1 abac_stocks) = map csv_row abac_stocks"
    by (simp only: map_append [symmetric] append_take_drop_id)
  have h: "header_line \<notin> set (map csv_row abac_stocks)"
    by (simp add: header_line_def headers_def csv_row_def abac_stocks_def)
  have u: "content (empty_sink\<lparr>readable := False\<rparr>) \<noteq> None \<and> \<not> readable (empty_sink\<lparr>readable := False\<rparr>)"
    by (simp add: empty_sink_def)
  have w: "content absent_sink = None \<and> writable absent_sink"
    by (simp add: absent_sink_def)
  note t = header_depends_on_existence_only [of empty_sink "take 1 abac_stocks" "drop 1 abac_stocks", THEN conjunct1, rule_format,
      OF conjI [OF a(1) conjI [OF a(2) a(3)]]]
  note t3 = header_depends_on_existence_only [of "empty_sink\<lparr>readable := False\<rparr>" abac_stocks "[]",
      THEN conjunct2, THEN conjunct2, THEN conjunct1, rule_format, OF u]
  note t4 = header_depends_on_existence_only [of absent_sink abac_stocks "[]",
      THEN conjunct2, THEN conjunct2, THEN conjunct2, rule_format, OF w]
  from t [THEN conjunct1] t [THEN conjunct2] a e h t3 t4 show ?thesis by simp
qed

end
